theory Spec2Isabelle
  imports Main
begin

section \<open>Python values, errors and results\<close>

text \<open>
  The module under verification is \<^verbatim>\<open>src/app/core/logging.py\<close>. It is a thin layer over
  the standard library (\<^verbatim>\<open>contextvars\<close>, \<^verbatim>\<open>logging\<close>, \<^verbatim>\<open>os\<close>, \<^verbatim>\<open>pathlib\<close>), so the library
  calls it makes are modelled next to it, as CPython 3.11 on POSIX defines them.
  A Python \<^verbatim>\<open>str\<close> is modelled by its UTF-8 bytes: an ASCII character is one \<open>char\<close> with
  the top bit clear, any other character is a sequence of \<open>char\<close>s with the top bit set.
\<close>

datatype error = ValueError | TypeError | RuntimeError | OSError | KeyError

text \<open>An exception is \<open>Inl\<close>, a normal return is \<open>Inr\<close>; \<open>bindE\<close> sequences two calls.\<close>

definition bindE :: "error + 'a \<Rightarrow> ('a \<Rightarrow> error + 'b) \<Rightarrow> error + 'b" where
  "bindE m f = (case m of Inl e \<Rightarrow> Inl e | Inr x \<Rightarrow> f x)"

text \<open>What an attribute of the \<^verbatim>\<open>logging\<close> module can hold: an int, a str, or a dict.\<close>

datatype pyval = IntV int | StrV string | DictV

section \<open>Strings\<close>

text \<open>\<^verbatim>\<open>s.replace(old, new)\<close> for a one-character \<^verbatim>\<open>old\<close>.\<close>

definition replace :: "char \<Rightarrow> string \<Rightarrow> string \<Rightarrow> string" where
  "replace old new s = concat (map (\<lambda>c. if c = old then new else [c]) s)"

definition upper_char :: "char \<Rightarrow> char" where
  "upper_char c =
     (case map_of (zip ''abcdefghijklmnopqrstuvwxyz'' ''ABCDEFGHIJKLMNOPQRSTUVWXYZ'') c of
        Some u \<Rightarrow> u
      | None \<Rightarrow> c)"

text \<open>A string of ASCII characters only.\<close>

fun is_ascii :: "string \<Rightarrow> bool" where
  "is_ascii [] = True"
| "is_ascii (c # cs) = (if digit7 c then False else is_ascii cs)"

text \<open>
  \<^verbatim>\<open>s.upper()\<close> follows the full Unicode case mapping: on a string with a non-ASCII
  character the result depends on the Unicode tables of the interpreter, and may even be
  ASCII (U+0131 gives \<^verbatim>\<open>I\<close>, U+017F gives \<^verbatim>\<open>S\<close>, U+00DF gives \<^verbatim>\<open>SS\<close>). These tables are
  not part of the model: \<open>unicode_upper\<close> is left unspecified, so that whatever is proved
  about it holds for every case mapping.
\<close>

definition unicode_upper :: "string \<Rightarrow> string" where
  "unicode_upper = undefined"

text \<open>\<^verbatim>\<open>s.upper()\<close>: on an ASCII string, exactly the letters a to z change.\<close>

definition upper :: "string \<Rightarrow> string" where
  "upper s = (if is_ascii s then map upper_char s else unicode_upper s)"

text \<open>\<^verbatim>\<open>s.split(sep)\<close> for a one-character \<^verbatim>\<open>sep\<close>: never the empty list.\<close>

fun split :: "char \<Rightarrow> string \<Rightarrow> string list" where
  "split sep [] = [[]]"
| "split sep (c # cs) =
     (if c = sep then [] # split sep cs
      else (case split sep cs of
              [] \<Rightarrow> [[c]]
            | w # ws \<Rightarrow> (c # w) # ws))"

text \<open>\<^verbatim>\<open>sep.join(words)\<close>.\<close>

fun join :: "string \<Rightarrow> string list \<Rightarrow> string" where
  "join sep [] = []"
| "join sep [w] = w"
| "join sep (w # ws) = w @ sep @ join sep ws"

section \<open>Paths: \<^verbatim>\<open>pathlib.PurePosixPath\<close> and \<^verbatim>\<open>os.path.abspath\<close>\<close>

text \<open>
  A pure POSIX path is its root (\<^verbatim>\<open>''\<close>, \<^verbatim>\<open>'/'\<close> or \<^verbatim>\<open>'//'\<close>) and its components; parsing
  drops empty and \<^verbatim>\<open>'.'\<close> components and keeps \<^verbatim>\<open>'..'\<close>.
\<close>

record path =
  proot :: string
  pparts :: "string list"

definition leading_slashes :: "string \<Rightarrow> nat" where
  "leading_slashes s = length (takeWhile (\<lambda>c. c = CHR ''/'') s)"

definition Path :: "string \<Rightarrow> path" where
  "Path s =
     \<lparr>proot = (if leading_slashes s = 0 then []
               else if leading_slashes s = 2 then ''//'' else ''/''),
      pparts = filter (\<lambda>x. x \<noteq> [] \<and> x \<noteq> ''.'') (split (CHR ''/'') s)\<rparr>"

text \<open>\<^verbatim>\<open>str(p)\<close>.\<close>

definition path_str :: "path \<Rightarrow> string" where
  "path_str p =
     (let s = proot p @ join ''/'' (pparts p) in if s = [] then ''.'' else s)"

text \<open>\<^verbatim>\<open>p / s\<close>: a rooted right operand replaces the left one.\<close>

definition truediv :: "path \<Rightarrow> string \<Rightarrow> path" where
  "truediv p s =
     (let q = Path s
      in if proot q \<noteq> [] then q else p\<lparr>pparts := pparts p @ pparts q\<rparr>)"

text \<open>One turn of the loop of \<^verbatim>\<open>posixpath.normpath\<close> over the components.\<close>

definition norm_step :: "bool \<Rightarrow> string list \<Rightarrow> string \<Rightarrow> string list" where
  "norm_step rooted new_comps part =
     (if part = [] \<or> part = ''.'' then new_comps
      else if part \<noteq> ''..'' \<or> (\<not> rooted \<and> new_comps = [])
                \<or> (new_comps \<noteq> [] \<and> last new_comps = ''..'')
        then new_comps @ [part]
      else if new_comps \<noteq> [] then butlast new_comps
      else new_comps)"

definition normpath :: "string \<Rightarrow> string" where
  "normpath p =
     (if p = [] then ''.''
      else let initial_slashes =
                 (if leading_slashes p = 0 then 0
                  else if leading_slashes p = 2 then 2 else (1::nat));
               comps = foldl (norm_step (0 < initial_slashes)) [] (split (CHR ''/'') p);
               r = replicate initial_slashes (CHR ''/'') @ join ''/'' comps
           in if r = [] then ''.'' else r)"

text \<open>\<^verbatim>\<open>posixpath.join(a, b)\<close>.\<close>

definition path_join :: "string \<Rightarrow> string \<Rightarrow> string" where
  "path_join a b =
     (if take 1 b = ''/'' then b
      else if a = [] \<or> last a = CHR ''/'' then a @ b
      else a @ ''/'' @ b)"

text \<open>\<^verbatim>\<open>os.path.abspath(p)\<close> in the working directory \<open>wd\<close>.\<close>

definition abspath :: "string \<Rightarrow> string \<Rightarrow> string" where
  "abspath wd p = normpath (if take 1 p = ''/'' then p else path_join wd p)"

section \<open>The \<^verbatim>\<open>logging\<close> library: filters, formatters, handlers, loggers\<close>

text \<open>
  The upper-case attributes of the \<^verbatim>\<open>logging\<close> module, the only ones an upper-cased name
  can reach: the level constants with their aliases, \<^verbatim>\<open>BASIC_FORMAT\<close> (a str) and
  \<^verbatim>\<open>_STYLES\<close> (a dict). \<^verbatim>\<open>getattr(logging, name, default)\<close> is a lookup in this table.
\<close>

definition CRITICAL :: int where "CRITICAL = 50"
definition ERROR :: int where "ERROR = 40"
definition WARNING :: int where "WARNING = 30"
definition INFO :: int where "INFO = 20"
definition DEBUG :: int where "DEBUG = 10"
definition NOTSET :: int where "NOTSET = 0"

definition logging_attrs :: "(string \<times> pyval) list" where
  "logging_attrs =
     [(''CRITICAL'', IntV CRITICAL), (''FATAL'', IntV CRITICAL), (''ERROR'', IntV ERROR),
      (''WARNING'', IntV WARNING), (''WARN'', IntV WARNING), (''INFO'', IntV INFO),
      (''DEBUG'', IntV DEBUG), (''NOTSET'', IntV NOTSET),
      (''BASIC_FORMAT'', StrV ''%(levelname)s:%(name)s:%(message)s''),
      (''_STYLES'', DictV)]"

definition logging_getattr :: "string \<Rightarrow> pyval \<Rightarrow> pyval" where
  "logging_getattr name dflt =
     (case map_of logging_attrs name of Some v \<Rightarrow> v | None \<Rightarrow> dflt)"

text \<open>\<^verbatim>\<open>logging._nameToLevel\<close>.\<close>

definition nameToLevel :: "(string \<times> int) list" where
  "nameToLevel =
     [(''CRITICAL'', CRITICAL), (''FATAL'', CRITICAL), (''ERROR'', ERROR), (''WARN'', WARNING),
      (''WARNING'', WARNING), (''INFO'', INFO), (''DEBUG'', DEBUG), (''NOTSET'', NOTSET)]"

text \<open>
  \<^verbatim>\<open>logging._checkLevel\<close>, which every \<^verbatim>\<open>setLevel\<close> calls: an int passes, a str must be a
  level name (else ValueError), anything else is a TypeError.
\<close>

definition checkLevel :: "pyval \<Rightarrow> error + int" where
  "checkLevel v =
     (case v of
        IntV n \<Rightarrow> Inr n
      | StrV s \<Rightarrow> (case map_of nameToLevel s of None \<Rightarrow> Inl ValueError | Some n \<Rightarrow> Inr n)
      | DictV \<Rightarrow> Inl TypeError)"

text \<open>The only filter class of the module.\<close>

datatype log_filter = UserContextFilter

record formatter =
  fmt :: string
  datefmt :: string

text \<open>
  The destination of a handler: a \<^verbatim>\<open>StreamHandler\<close> on stderr, or a
  \<^verbatim>\<open>RotatingFileHandler\<close> with the attributes its constructor stores.
\<close>

datatype target =
    StreamHandler
  | RotatingFileHandler (baseFilename: string) (maxBytes: int) (backupCount: int)
      (encoding: string)

fun is_RotatingFileHandler :: "target \<Rightarrow> bool" where
  "is_RotatingFileHandler StreamHandler = False"
| "is_RotatingFileHandler (RotatingFileHandler f m b e) = True"

record handler =
  target :: target
  hlevel :: int
  hformatter :: "formatter option"
  hfilters :: "log_filter list"

record logger =
  level :: int
  handlers :: "handler list"

text \<open>A reference to a logger object: the root logger or an entry of the manager's dict.\<close>

datatype logger_ref = RootLogger | NamedLogger string

record log_record =
  name :: string
  levelno :: int
  levelname :: string
  asctime :: string
  message :: string
  user :: "string option"

section \<open>The process state\<close>

text \<open>
  A token object of \<^verbatim>\<open>contextvars\<close>: the value it restores (\<open>None\<close> is \<^verbatim>\<open>Token.MISSING\<close>)
  and whether it has been used. A token is referred to by its index in \<open>tokens\<close>.
\<close>

record token_obj =
  old_value :: "string option"
  used :: bool

type_synonym token = nat

text \<open>
  Everything the module reads or changes, for one execution context:
  the environment and working directory; the file system as far as the module touches it
  (\<open>mkdir_ok\<close> and \<open>open_ok\<close> say whether the operating system lets a directory be made and
  a log file be opened, \<open>dirs\<close> and \<open>files\<close> collect what was made and opened); the value of
  the context variable \<^verbatim>\<open>_current_user\<close> (\<open>None\<close> while never set) with the tokens issued;
  the root logger and the manager's \<^verbatim>\<open>loggerDict\<close>.
\<close>

record state =
  environ :: "string \<rightharpoonup> string"
  cwd :: string
  mkdir_ok :: "string \<Rightarrow> bool"
  open_ok :: "string \<Rightarrow> bool"
  dirs :: "string set"
  files :: "string set"
  current_user :: "string option"
  tokens :: "token_obj list"
  root :: logger
  loggerDict :: "string \<rightharpoonup> logger"

text \<open>\<^verbatim>\<open>os.getenv(key, default)\<close>.\<close>

definition getenv :: "state \<Rightarrow> string \<Rightarrow> string \<Rightarrow> string" where
  "getenv s key dflt = (case environ s key of None \<Rightarrow> dflt | Some v \<Rightarrow> v)"

text \<open>A logger as \<^verbatim>\<open>Logger.__init__\<close> leaves it.\<close>

definition new_logger :: logger where
  "new_logger = \<lparr>level = NOTSET, handlers = []\<rparr>"

text \<open>
  \<^verbatim>\<open>logging.getLogger(name)\<close>: the root logger for an empty name and for the root's own
  name, otherwise the entry of the manager's dict, created when absent.
\<close>

definition getLogger :: "string \<Rightarrow> state \<Rightarrow> logger_ref \<times> state" where
  "getLogger nm s =
     (if nm = [] \<or> nm = ''root'' then (RootLogger, s)
      else (NamedLogger nm,
            (case loggerDict s nm of
               None \<Rightarrow> s\<lparr>loggerDict := (loggerDict s)(nm \<mapsto> new_logger)\<rparr>
             | Some l \<Rightarrow> s)))"

text \<open>
  Reading and writing the object a reference points to. A reference to a named logger is
  only ever obtained from \<open>getLogger\<close>, which has made the entry; for a name without entry
  \<open>deref\<close> gives the logger \<open>getLogger\<close> would create.
\<close>

definition deref :: "state \<Rightarrow> logger_ref \<Rightarrow> logger" where
  "deref s r =
     (case r of
        RootLogger \<Rightarrow> root s
      | NamedLogger nm \<Rightarrow> (case loggerDict s nm of None \<Rightarrow> new_logger | Some l \<Rightarrow> l))"

definition assign :: "logger_ref \<Rightarrow> logger \<Rightarrow> state \<Rightarrow> state" where
  "assign r l s =
     (case r of
        RootLogger \<Rightarrow> s\<lparr>root := l\<rparr>
      | NamedLogger nm \<Rightarrow> s\<lparr>loggerDict := (loggerDict s)(nm \<mapsto> l)\<rparr>)"

text \<open>
  \<^verbatim>\<open>logger.addHandler(h)\<close> appends unless the very same object is attached already; the
  module only ever passes a handler it has just constructed.
\<close>

definition addHandler :: "logger_ref \<Rightarrow> handler \<Rightarrow> state \<Rightarrow> state" where
  "addHandler r h s = assign r ((deref s r)\<lparr>handlers := handlers (deref s r) @ [h]\<rparr>) s"

text \<open>\<^verbatim>\<open>logger.setLevel(level)\<close>.\<close>

definition Logger_setLevel :: "logger_ref \<Rightarrow> pyval \<Rightarrow> state \<Rightarrow> error + state" where
  "Logger_setLevel r v s =
     bindE (checkLevel v) (\<lambda>n. Inr (assign r ((deref s r)\<lparr>level := n\<rparr>) s))"

text \<open>\<^verbatim>\<open>handler.setLevel(level)\<close>, \<^verbatim>\<open>handler.setFormatter(f)\<close>, \<^verbatim>\<open>handler.addFilter(f)\<close>.\<close>

definition Handler_setLevel :: "handler \<Rightarrow> pyval \<Rightarrow> error + handler" where
  "Handler_setLevel h v = bindE (checkLevel v) (\<lambda>n. Inr (h\<lparr>hlevel := n\<rparr>))"

definition setFormatter :: "handler \<Rightarrow> formatter \<Rightarrow> handler" where
  "setFormatter h f = h\<lparr>hformatter := Some f\<rparr>"

definition addFilter :: "handler \<Rightarrow> log_filter \<Rightarrow> handler" where
  "addFilter h f = (if f \<in> set (hfilters h) then h else h\<lparr>hfilters := hfilters h @ [f]\<rparr>)"

text \<open>\<^verbatim>\<open>logging.StreamHandler()\<close>: level NOTSET, no formatter, no filter.\<close>

definition new_StreamHandler :: handler where
  "new_StreamHandler =
     \<lparr>target = StreamHandler, hlevel = NOTSET, hformatter = None, hfilters = []\<rparr>"

text \<open>
  \<^verbatim>\<open>RotatingFileHandler(filename, maxBytes=m, backupCount=b, encoding=e)\<close>:
  \<^verbatim>\<open>FileHandler.__init__\<close> stores \<^verbatim>\<open>self.baseFilename = os.path.abspath(filename)\<close> and,
  \<^verbatim>\<open>delay\<close> being false, opens the file at once; a failing open raises. Whether the open
  succeeds is the operating system's answer \<open>open_ok\<close>. A file name with a NUL character,
  which Python refuses with a ValueError before asking the system, is outside the model:
  environment values and the working directory cannot contain one.
\<close>

definition new_RotatingFileHandler ::
  "string \<Rightarrow> int \<Rightarrow> int \<Rightarrow> string \<Rightarrow> state \<Rightarrow> error + handler \<times> state" where
  "new_RotatingFileHandler filename m b e s =
     (let base = abspath (cwd s) filename
      in if open_ok s base
         then Inr (\<lparr>target = RotatingFileHandler base m b e, hlevel = NOTSET,
                    hformatter = None, hfilters = []\<rparr>,
                   s\<lparr>files := insert base (files s)\<rparr>)
         else Inl OSError)"

section \<open>Rendering and delivering a record\<close>

text \<open>The string attributes of a record that a format string can name.\<close>

definition record_dict :: "log_record \<Rightarrow> string \<rightharpoonup> string" where
  "record_dict r =
     (\<lambda>k. if k = ''asctime'' then Some (asctime r)
          else if k = ''levelname'' then Some (levelname r)
          else if k = ''name'' then Some (name r)
          else if k = ''message'' then Some (message r)
          else if k = ''user'' then user r
          else None)"

text \<open>After \<^verbatim>\<open>%(\<close>: the key up to \<^verbatim>\<open>)s\<close> and the rest of the format.\<close>

definition take_key :: "string \<Rightarrow> (string \<times> string) option" where
  "take_key cs =
     (let key = takeWhile (\<lambda>c. c \<noteq> CHR '')'') cs;
          rest = dropWhile (\<lambda>c. c \<noteq> CHR '')'') cs
      in if take 2 rest = '')s'' then Some (key, drop 2 rest) else None)"

text \<open>
  \<^verbatim>\<open>fmt % d\<close> for formats made of text and \<^verbatim>\<open>%(key)s\<close> fields: a key missing from the
  record is a KeyError, any other use of \<^verbatim>\<open>%\<close> is outside this model (ValueError).
\<close>

function percent_format :: "(string \<rightharpoonup> string) \<Rightarrow> string \<Rightarrow> error + string" where
  "percent_format d [] = Inr []"
| "percent_format d (c # cs) =
     (if c \<noteq> CHR ''%'' then map_sum id ((#) c) (percent_format d cs)
      else if take 1 cs \<noteq> ''('' then Inl ValueError
      else (case take_key (drop 1 cs) of
              None \<Rightarrow> Inl ValueError
            | Some (key, rest) \<Rightarrow>
                (case d key of
                   None \<Rightarrow> Inl KeyError
                 | Some v \<Rightarrow> map_sum id ((@) v) (percent_format d rest))))"
  by pat_completeness auto
termination
proof (relation "measure (\<lambda>(d, cs). length cs)")
  show "wf (measure (\<lambda>(d :: string \<rightharpoonup> string, cs :: string). length cs))"
    by simp
next
  fix d :: "string \<rightharpoonup> string" and c :: char and cs :: string
  show "((d, cs), (d, c # cs)) \<in> measure (\<lambda>(d, cs). length cs)"
    by simp
next
  fix d :: "string \<rightharpoonup> string" and c :: char and cs x2 x y :: string and xa :: "string \<times> string"
  assume "take_key (drop 1 cs) = Some xa" and "(x, y) = xa"
  then have k: "take_key (drop 1 cs) = Some (x, y)"
    by simp
  have "length (dropWhile (\<lambda>c. c \<noteq> CHR '')'') (drop 1 cs)) \<le> length (drop 1 cs)"
    by (rule length_dropWhile_le)
  with k have "length y \<le> length (drop 1 cs)"
    by (auto simp: take_key_def Let_def split: if_splits)
  then show "((d, y), (d, c # cs)) \<in> measure (\<lambda>(d, cs). length cs)"
    by simp
qed

text \<open>
  \<^verbatim>\<open>Formatter.format(record)\<close>: the style turns the KeyError of a missing field into a
  ValueError. \<open>asctime\<close> is the creation time rendered under \<open>datefmt\<close>.
\<close>

definition Formatter_format :: "formatter \<Rightarrow> log_record \<Rightarrow> error + string" where
  "Formatter_format f r =
     (case percent_format (record_dict r) (fmt f) of
        Inl e \<Rightarrow> Inl (if e = KeyError then ValueError else e)
      | Inr line \<Rightarrow> Inr line)"

section \<open>ActorContext: the context variable \<^verbatim>\<open>_current_user\<close>\<close>

text \<open>\<^verbatim>\<open>_current_user = contextvars.ContextVar("current_user", default="-")\<close>\<close>

definition ContextVar_get :: "state \<Rightarrow> string" where
  "ContextVar_get s = (case current_user s of None \<Rightarrow> ''-'' | Some v \<Rightarrow> v)"

text \<open>\<^verbatim>\<open>var.set(v)\<close> makes a fresh token holding the value in force, then stores \<open>v\<close>.\<close>

definition ContextVar_set :: "string \<Rightarrow> state \<Rightarrow> token \<times> state" where
  "ContextVar_set v s =
     (length (tokens s),
      s\<lparr>current_user := Some v,
        tokens := tokens s @ [\<lparr>old_value = current_user s, used = False\<rparr>]\<rparr>)"

text \<open>
  \<^verbatim>\<open>var.reset(token)\<close>: RuntimeError for a token used before, ValueError for a token this
  variable did not issue in this context; otherwise the old value (or the unset state) comes
  back and the token is marked used.
\<close>

definition ContextVar_reset :: "token \<Rightarrow> state \<Rightarrow> error + state" where
  "ContextVar_reset t s =
     (if length (tokens s) \<le> t then Inl ValueError
      else if used (tokens s ! t) then Inl RuntimeError
      else Inr (s\<lparr>current_user := old_value (tokens s ! t),
                  tokens := (tokens s)[t := (tokens s ! t)\<lparr>used := True\<rparr>]\<rparr>))"

text \<open>\<^verbatim>\<open>x or d\<close> for an \<^verbatim>\<open>Optional[str]\<close>: \<^verbatim>\<open>None\<close> and the empty string are falsy.\<close>

definition or_else :: "string option \<Rightarrow> string \<Rightarrow> string" where
  "or_else x d = (case x of None \<Rightarrow> d | Some v \<Rightarrow> if v = [] then d else v)"

definition set_log_user :: "string option \<Rightarrow> state \<Rightarrow> token \<times> state" where
  "set_log_user usr s = ContextVar_set (or_else usr ''-'') s"

definition reset_log_user :: "token \<Rightarrow> state \<Rightarrow> error + state" where
  "reset_log_user t s = ContextVar_reset t s"

text \<open>
  Scopes nested one inside the other: each identifier of the list is set in turn, the
  innermost scope ends first, and every token is reset once, in reverse order.
\<close>

fun nested_scopes :: "string option list \<Rightarrow> state \<Rightarrow> error + state" where
  "nested_scopes [] s = Inr s"
| "nested_scopes (u # us) s =
     (case set_log_user u s of
        (t, s1) \<Rightarrow> bindE (nested_scopes us s1) (reset_log_user t))"

section \<open>RecordEnricher: \<^verbatim>\<open>_UserContextFilter\<close>\<close>

text \<open>
  \<^verbatim>\<open>filter(self, record)\<close> assigns \<^verbatim>\<open>record.user\<close> and returns \<^verbatim>\<open>True\<close>; the changed record
  and the returned flag are the two components.
\<close>

definition UserContextFilter_filter :: "state \<Rightarrow> log_record \<Rightarrow> log_record \<times> bool" where
  "UserContextFilter_filter s r = (r\<lparr>user := Some (ContextVar_get s)\<rparr>, True)"

text \<open>\<^verbatim>\<open>Filterer.filter\<close>: the filters in order, stopping at the first that rejects.\<close>

fun run_filters :: "log_filter list \<Rightarrow> state \<Rightarrow> log_record \<Rightarrow> log_record \<times> bool" where
  "run_filters [] s r = (r, True)"
| "run_filters (UserContextFilter # fs) s r =
     (case UserContextFilter_filter s r of
        (r1, ok) \<Rightarrow> if ok then run_filters fs s r1 else (r1, False))"

text \<open>
  \<^verbatim>\<open>Handler.handle\<close>: filter, then emit the formatted line; \<open>None\<close> when the record is
  rejected or formatting fails (\<^verbatim>\<open>handleError\<close> swallows the exception). A handler without
  formatter uses the library default \<^verbatim>\<open>%(message)s\<close>.
\<close>

definition Handler_handle :: "handler \<Rightarrow> state \<Rightarrow> log_record \<Rightarrow> log_record \<times> string option" where
  "Handler_handle h s r =
     (case run_filters (hfilters h) s r of
        (r1, rv) \<Rightarrow>
          if rv
          then (r1, (case Formatter_format
                           (case hformatter h of
                              None \<Rightarrow> \<lparr>fmt = ''%(message)s'', datefmt = []\<rparr>
                            | Some f \<Rightarrow> f) r1 of
                       Inl e \<Rightarrow> None
                     | Inr line \<Rightarrow> Some line))
          else (r1, None))"

text \<open>The level test of \<^verbatim>\<open>Logger.callHandlers\<close>: \<^verbatim>\<open>record.levelno >= hdlr.level\<close>.\<close>

definition admits :: "handler \<Rightarrow> int \<Rightarrow> bool" where
  "admits h lvl = (hlevel h \<le> lvl)"

text \<open>
  \<^verbatim>\<open>Logger.callHandlers\<close> over the handlers of one logger: what is written, to which
  destination, in delivery order.
\<close>

fun callHandlers :: "handler list \<Rightarrow> state \<Rightarrow> log_record \<Rightarrow> (target \<times> string) list" where
  "callHandlers [] s r = []"
| "callHandlers (h # hs) s r =
     (if admits h (levelno r)
      then (case Handler_handle h s r of
              (r1, None) \<Rightarrow> callHandlers hs s r1
            | (r1, Some line) \<Rightarrow> (target h, line) # callHandlers hs s r1)
      else callHandlers hs s r)"

text \<open>
  A record logged on the root logger. \<^verbatim>\<open>Logger.isEnabledFor\<close> drops it when its level is
  not above \<^verbatim>\<open>manager.disable\<close> (0: the module never calls \<^verbatim>\<open>logging.disable\<close>) or is below
  the logger's own level.
\<close>

definition root_handle :: "state \<Rightarrow> log_record \<Rightarrow> (target \<times> string) list" where
  "root_handle s r =
     (if levelno r \<le> 0 then []
      else if level (root s) \<le> levelno r then callHandlers (handlers (root s)) s r
      else [])"

section \<open>Configuration: \<^verbatim>\<open>_get_log_dir\<close>, \<^verbatim>\<open>_get_log_level\<close>, \<^verbatim>\<open>_get_formatter\<close>\<close>

text \<open>
  \<^verbatim>\<open>Path(os.getenv("LOG_DIR", "logs"))\<close>, then \<^verbatim>\<open>mkdir(parents=True, exist_ok=True)\<close>, which
  raises when the operating system refuses.
\<close>

definition get_log_dir :: "state \<Rightarrow> error + path \<times> state" where
  "get_log_dir s =
     (let log_dir = Path (getenv s ''LOG_DIR'' ''logs'')
      in if mkdir_ok s (path_str log_dir)
         then Inr (log_dir, s\<lparr>dirs := insert (path_str log_dir) (dirs s)\<rparr>)
         else Inl OSError)"

text \<open>\<^verbatim>\<open>getattr(logging, os.getenv("LOG_LEVEL", "INFO").upper(), logging.INFO)\<close>\<close>

definition get_log_level :: "state \<Rightarrow> pyval" where
  "get_log_level s = logging_getattr (upper (getenv s ''LOG_LEVEL'' ''INFO'')) (IntV INFO)"

definition get_formatter :: formatter where
  "get_formatter =
     \<lparr>fmt = ''%(asctime)s %(levelname)s %(name)s user=%(user)s %(message)s'',
      datefmt = ''%Y-%m-%d %H:%M:%S''\<rparr>"

section \<open>RootRouter: \<^verbatim>\<open>setup_logging\<close>\<close>

definition setup_logging :: "state \<Rightarrow> error + state" where
  "setup_logging s =
     bindE (get_log_dir s) (\<lambda>(log_dir, s1).
       let lvl = get_log_level s1
       in if handlers (deref s1 RootLogger) \<noteq> [] then Inr s1
          else
            bindE (Logger_setLevel RootLogger lvl s1) (\<lambda>s2.
            let formatter = get_formatter;
                user_filter = UserContextFilter
            in
            bindE (Handler_setLevel new_StreamHandler lvl) (\<lambda>c1.
            let console_handler = addFilter (setFormatter c1 formatter) user_filter
            in
            bindE (new_RotatingFileHandler (path_str (truediv log_dir ''app.log''))
                     (5 * 1024 * 1024) 5 ''utf-8'' s2) (\<lambda>(a0, s3).
            bindE (Handler_setLevel a0 lvl) (\<lambda>a1.
            let app_file = addFilter (setFormatter a1 formatter) user_filter
            in
            bindE (new_RotatingFileHandler (path_str (truediv log_dir ''error.log''))
                     (5 * 1024 * 1024) 5 ''utf-8'' s3) (\<lambda>(e0, s4).
            bindE (Handler_setLevel e0 (IntV ERROR)) (\<lambda>e1.
            let error_file = addFilter (setFormatter e1 formatter) user_filter
            in
            Inr (addHandler RootLogger error_file
                  (addHandler RootLogger app_file
                    (addHandler RootLogger console_handler s4))))))))))"

text \<open>\<open>n\<close> calls in a row; an exception ends the run.\<close>

fun setup_logging_times :: "nat \<Rightarrow> state \<Rightarrow> error + state" where
  "setup_logging_times 0 s = Inr s"
| "setup_logging_times (Suc n) s = bindE (setup_logging s) (setup_logging_times n)"

section \<open>ComponentRouter: \<^verbatim>\<open>_ensure_module_handler\<close> and \<^verbatim>\<open>get_logger\<close>\<close>

text \<open>\<^verbatim>\<open>name.replace("/", "_").replace("\\", "_").replace(".", "_")\<close>\<close>

definition safe_name :: "string \<Rightarrow> string" where
  "safe_name nm =
     replace (CHR ''.'') ''_'' (replace (CHR 0x5C) ''_'' (replace (CHR ''/'') ''_'' nm))"

text \<open>\<^verbatim>\<open>log_dir / f"{safe_name}.log"\<close>\<close>

definition module_log_path :: "path \<Rightarrow> string \<Rightarrow> path" where
  "module_log_path log_dir nm = truediv log_dir (safe_name nm @ ''.log'')"

text \<open>
  The loop over \<^verbatim>\<open>logger.handlers\<close>: true when it returns early, at the first rotating-file
  handler whose \<^verbatim>\<open>baseFilename\<close> equals \<^verbatim>\<open>str(module_log_path)\<close>.
\<close>

fun handler_attached :: "handler list \<Rightarrow> string \<Rightarrow> bool" where
  "handler_attached [] p = False"
| "handler_attached (h # hs) p =
     (case target h of
        StreamHandler \<Rightarrow> handler_attached hs p
      | RotatingFileHandler f m b e \<Rightarrow> if f = p then True else handler_attached hs p)"

definition ensure_module_handler :: "logger_ref \<Rightarrow> string \<Rightarrow> state \<Rightarrow> error + state" where
  "ensure_module_handler lg nm s =
     bindE (get_log_dir s) (\<lambda>(log_dir, s1).
       let lvl = get_log_level s1;
           formatter = get_formatter;
           p = module_log_path log_dir nm
       in if handler_attached (handlers (deref s1 lg)) (path_str p) then Inr s1
          else
            bindE (new_RotatingFileHandler (path_str p) (5 * 1024 * 1024) 5 ''utf-8'' s1)
              (\<lambda>(m0, s2).
            bindE (Handler_setLevel m0 lvl) (\<lambda>m1.
            let module_file = addFilter (setFormatter m1 formatter) UserContextFilter
            in Inr (addHandler lg module_file s2))))"

definition get_logger :: "string option \<Rightarrow> state \<Rightarrow> error + logger_ref \<times> state" where
  "get_logger nm s =
     (let logger_name = or_else nm ''app''
      in case getLogger logger_name s of
           (lg, s1) \<Rightarrow> bindE (ensure_module_handler lg logger_name s1) (\<lambda>s2. Inr (lg, s2)))"

text \<open>\<open>n\<close> calls with the same name, in a row.\<close>

fun get_logger_times :: "nat \<Rightarrow> string option \<Rightarrow> state \<Rightarrow> error + state" where
  "get_logger_times 0 nm s = Inr s"
| "get_logger_times (Suc n) nm s =
     bindE (get_logger nm s) (\<lambda>(lg, s1). get_logger_times n nm s1)"

text \<open>The files the rotating-file handlers of a logger write to.\<close>

definition file_sinks :: "handler list \<Rightarrow> string list" where
  "file_sinks hs = map (\<lambda>h. baseFilename (target h)) (filter (\<lambda>h. is_RotatingFileHandler (target h)) hs)"

section \<open>A process at start\<close>

text \<open>
  A process that has just imported the module: the given environment and working directory,
  a file system that allows everything, no actor set, the root logger at the library's
  initial level WARNING without handlers, no named logger.
\<close>

definition fresh_process :: "(string \<rightharpoonup> string) \<Rightarrow> string \<Rightarrow> state" where
  "fresh_process env wd =
     \<lparr>environ = env, cwd = wd, mkdir_ok = (\<lambda>p. True), open_ok = (\<lambda>p. True),
      dirs = {}, files = {}, current_user = None, tokens = [],
      root = \<lparr>level = WARNING, handlers = []\<rparr>, loggerDict = Map.empty\<rparr>"

section \<open>Vocabulary of the statements\<close>

text \<open>The directory the environment of a state configures, and a file name inside it as
  a file handler resolves it.\<close>

definition log_dir_of :: "state \<Rightarrow> path" where
  "log_dir_of s = Path (getenv s ''LOG_DIR'' ''logs'')"

definition log_file_of :: "state \<Rightarrow> string \<Rightarrow> string" where
  "log_file_of s f = abspath (cwd s) (path_str (truediv (log_dir_of s) f))"

text \<open>A rotating file with the policy every file handler of the module gets: 5 MiB, 5 backups.\<close>

definition rotating :: "string \<Rightarrow> target" where
  "rotating f = RotatingFileHandler f (5 * 1024 * 1024) 5 ''utf-8''"

text \<open>A handler as the module configures each of its handlers: destination, level, the
  module's formatter and the actor filter.\<close>

definition module_sink :: "target \<Rightarrow> int \<Rightarrow> handler" where
  "module_sink d lvl =
     \<lparr>target = d, hlevel = lvl, hformatter = Some get_formatter, hfilters = [UserContextFilter]\<rparr>"


text \<open>The state \<open>setup_logging\<close> leaves when run in a fresh process with an empty environment.\<close>

definition booted :: state where
  "booted = (fresh_process Map.empty ''/srv/pd'')
     \<lparr>dirs := {''logs''},
      files := {''/srv/pd/logs/error.log'', ''/srv/pd/logs/app.log''},
      root := \<lparr>level = INFO,
               handlers = [module_sink StreamHandler INFO,
                           module_sink (rotating ''/srv/pd/logs/app.log'') INFO,
                           module_sink (rotating ''/srv/pd/logs/error.log'') ERROR]\<rparr>\<rparr>"


text \<open>A fresh process whose environment sets \<^verbatim>\<open>LOG_LEVEL\<close> to a word that names nothing.\<close>

definition verbose_process :: state where
  "verbose_process = fresh_process (map_of [(''LOG_LEVEL'', ''verbose'')]) ''/srv/pd''"

text \<open>The handlers of the logger a call of \<open>get_logger\<close> returns, and the files the handlers
  of a logger write to after a run of calls.\<close>

definition result_handlers :: "error + logger_ref \<times> state \<Rightarrow> error + handler list" where
  "result_handlers res = map_sum id (\<lambda>(lg, s). handlers (deref s lg)) res"

definition sinks_after :: "logger_ref \<Rightarrow> error + state \<Rightarrow> error + string list" where
  "sinks_after lg res = map_sum id (\<lambda>s. file_sinks (handlers (deref s lg))) res"

text \<open>The state after \<open>get_logger (Some ''billing'')\<close> in the state \<open>booted\<close>.\<close>

definition booted_billing :: state where
  "booted_billing = booted
     \<lparr>files := {''/srv/pd/logs/billing.log'', ''/srv/pd/logs/error.log'', ''/srv/pd/logs/app.log''},
      loggerDict := [''billing'' \<mapsto>
        \<lparr>level = NOTSET,
         handlers = [module_sink (rotating ''/srv/pd/logs/billing.log'') INFO]\<rparr>]\<rparr>"


section \<open>Sequencing, the fresh process\<close>

lemma bindE_Inl [simp]: "bindE (Inl e) f = Inl e"
  by (simp add: bindE_def)

lemma bindE_Inr [simp]: "bindE (Inr x) f = f x"
  by (simp add: bindE_def)

lemma bindE_eq_Inr: "bindE m f = Inr y \<longleftrightarrow> (\<exists>x. m = Inr x \<and> f x = Inr y)"
  by (cases m) simp_all

lemma fresh_fields [simp]:
  "environ (fresh_process env wd) = env"
  "cwd (fresh_process env wd) = wd"
  "mkdir_ok (fresh_process env wd) = (\<lambda>p. True)"
  "open_ok (fresh_process env wd) = (\<lambda>p. True)"
  "dirs (fresh_process env wd) = {}"
  "files (fresh_process env wd) = {}"
  "current_user (fresh_process env wd) = None"
  "tokens (fresh_process env wd) = []"
  "root (fresh_process env wd) = \<lparr>level = WARNING, handlers = []\<rparr>"
  "loggerDict (fresh_process env wd) = Map.empty"
  by (simp_all add: fresh_process_def)

section \<open>Scoped actor: set and restore\<close>

lemma nested_scopes_frame:
  "\<exists>s'. nested_scopes us s = Inr s' \<and> current_user s' = current_user s
        \<and> length (tokens s) \<le> length (tokens s')
        \<and> take (length (tokens s)) (tokens s') = tokens s"
proof (induction us arbitrary: s)
  case Nil
  show ?case by simp
next
  case (Cons u us)
  obtain t s1 where st: "set_log_user u s = (t, s1)"
    by (cases "set_log_user u s")
  then have t: "t = length (tokens s)"
    and tok1: "tokens s1 = tokens s @ [\<lparr>old_value = current_user s, used = False\<rparr>]"
    by (auto simp: set_log_user_def ContextVar_set_def)
  from Cons.IH [of s1] obtain s2 where
    n: "nested_scopes us s1 = Inr s2" and
    len: "length (tokens s1) \<le> length (tokens s2)" and
    pre: "take (length (tokens s1)) (tokens s2) = tokens s1"
    by blast
  have lt: "t < length (tokens s2)"
    using len tok1 t by simp
  have at: "tokens s2 ! t = \<lparr>old_value = current_user s, used = False\<rparr>"
  proof -
    have "tokens s2 ! t = take (length (tokens s1)) (tokens s2) ! t"
      using tok1 t by simp
    also have "\<dots> = tokens s1 ! t"
      by (simp only: pre)
    finally show ?thesis
      using tok1 t by simp
  qed
  let ?s3 = "s2\<lparr>current_user := current_user s,
                 tokens := (tokens s2)[t := (tokens s2 ! t)\<lparr>used := True\<rparr>]\<rparr>"
  have r: "reset_log_user t s2 = Inr ?s3"
    using lt at by (simp add: reset_log_user_def ContextVar_reset_def)
  have "take (length (tokens s)) (tokens ?s3) = take (length (tokens s)) (tokens s2)"
    using t by simp
  also have "\<dots> = take (length (tokens s)) (take (length (tokens s1)) (tokens s2))"
    using tok1 by (simp add: min_def)
  also have "\<dots> = take (length (tokens s)) (tokens s1)"
    by (simp only: pre)
  also have "\<dots> = tokens s"
    using tok1 by simp
  finally have keep: "take (length (tokens s)) (tokens ?s3) = tokens s" .
  have "nested_scopes (u # us) s = Inr ?s3"
    using st n r by simp
  moreover have "length (tokens s) \<le> length (tokens ?s3)"
    using lt t by simp
  ultimately show ?case
    using keep by (intro exI [of _ ?s3]) simp
qed

text \<open>
  Claim C3. Whatever the actor \<open>s\<close> holds and whatever identifier \<open>x\<close> is set: the token
  returned by \<open>set_log_user x\<close> holds the value in force before the call; resetting with it
  succeeds and the actor read afterwards is the one read before the set. The same holds when
  further scopes, each closed before the outer reset, were opened in between
  (stack discipline).
\<close>

theorem restore_actor:
  assumes "set_log_user x s = (t, s1)"
  shows "old_value (tokens s1 ! t) = current_user s \<and>
         ContextVar_get s1 = or_else x ''-'' \<and>
         (\<exists>s2. reset_log_user t s1 = Inr s2 \<and> ContextVar_get s2 = ContextVar_get s) \<and>
         (\<exists>s2 s3. nested_scopes us s1 = Inr s2 \<and> reset_log_user t s2 = Inr s3 \<and>
                  ContextVar_get s3 = ContextVar_get s)"
proof -
  from assms have t: "t = length (tokens s)"
    and s1: "s1 = s\<lparr>current_user := Some (or_else x ''-''),
                    tokens := tokens s @ [\<lparr>old_value = current_user s, used = False\<rparr>]\<rparr>"
    by (auto simp: set_log_user_def ContextVar_set_def)
  have a: "old_value (tokens s1 ! t) = current_user s"
    by (simp add: t s1)
  have b: "ContextVar_get s1 = or_else x ''-''"
    by (simp add: s1 ContextVar_get_def)
  have c: "\<exists>s2. reset_log_user t s1 = Inr s2 \<and> ContextVar_get s2 = ContextVar_get s"
    by (simp add: t s1 reset_log_user_def ContextVar_reset_def ContextVar_get_def)
  have "\<exists>s'. nested_scopes (x # us) s = Inr s' \<and> current_user s' = current_user s"
    using nested_scopes_frame [of "x # us" s] by blast
  then obtain s' where n: "nested_scopes (x # us) s = Inr s'"
    and cu: "current_user s' = current_user s"
    by blast
  from n assms obtain s2 where n2: "nested_scopes us s1 = Inr s2"
    and r: "reset_log_user t s2 = Inr s'"
    by (auto simp: bindE_eq_Inr)
  have "ContextVar_get s' = ContextVar_get s"
    by (simp add: ContextVar_get_def cu)
  with n2 r have d: "\<exists>s2 s3. nested_scopes us s1 = Inr s2 \<and> reset_log_user t s2 = Inr s3 \<and>
                  ContextVar_get s3 = ContextVar_get s"
    by blast
  from a b c d show ?thesis by blast
qed

theorem restore_actor_witness:
  "set_log_user (Some ''alice'') ((fresh_process Map.empty ''/srv/pd'')\<lparr>current_user := Some ''bob''\<rparr>)
     = (0, (fresh_process Map.empty ''/srv/pd'')
             \<lparr>current_user := Some ''alice'', tokens := [\<lparr>old_value = Some ''bob'', used = False\<rparr>]\<rparr>) \<and>
   ContextVar_get ((fresh_process Map.empty ''/srv/pd'')
             \<lparr>current_user := Some ''alice'', tokens := [\<lparr>old_value = Some ''bob'', used = False\<rparr>]\<rparr>) = ''alice'' \<and>
   (\<exists>s2. reset_log_user 0 ((fresh_process Map.empty ''/srv/pd'')
             \<lparr>current_user := Some ''alice'', tokens := [\<lparr>old_value = Some ''bob'', used = False\<rparr>]\<rparr>) = Inr s2 \<and>
         ContextVar_get s2 = ''bob'') \<and>
   (\<exists>s2 s3. nested_scopes [Some ''carol'', None]
               ((fresh_process Map.empty ''/srv/pd'')
                 \<lparr>current_user := Some ''alice'', tokens := [\<lparr>old_value = Some ''bob'', used = False\<rparr>]\<rparr>) = Inr s2 \<and>
             reset_log_user 0 s2 = Inr s3 \<and> ContextVar_get s3 = ''bob'')"
proof -
  let ?s = "(fresh_process Map.empty ''/srv/pd'')\<lparr>current_user := Some ''bob''\<rparr>"
  let ?s1 = "(fresh_process Map.empty ''/srv/pd'')
             \<lparr>current_user := Some ''alice'', tokens := [\<lparr>old_value = Some ''bob'', used = False\<rparr>]\<rparr>"
  have h: "set_log_user (Some ''alice'') ?s = (0, ?s1)"
    by (simp add: set_log_user_def ContextVar_set_def or_else_def fresh_process_def)
  have g: "ContextVar_get ?s = ''bob''"
    by (simp add: ContextVar_get_def)
  have o: "or_else (Some ''alice'') ''-'' = ''alice''"
    by (simp add: or_else_def)
  show ?thesis
    using h restore_actor [OF h, of "[Some ''carol'', None]"] unfolding g o by blast
qed

section \<open>The actor default\<close>

lemma run_filters_all:
  "run_filters fs s r = (if fs = [] then r else r\<lparr>user := Some (ContextVar_get s)\<rparr>, True)"
proof (induction fs arbitrary: r)
  case Nil
  show ?case by simp
next
  case (Cons f fs)
  show ?case
    by (cases f) (simp add: Cons.IH UserContextFilter_filter_def)
qed

lemma format_module_line:
  "Formatter_format get_formatter r =
     (case user r of
        None \<Rightarrow> Inl ValueError
      | Some u \<Rightarrow> Inr (asctime r @ '' '' @ levelname r @ '' '' @ name r @ '' user='' @ u @ '' '' @ message r))"
  by (simp add: Formatter_format_def get_formatter_def take_key_def record_dict_def
      split: option.splits)

lemma handle_module_sink:
  "hformatter h = Some get_formatter \<Longrightarrow> hfilters h = [UserContextFilter] \<Longrightarrow>
   Handler_handle h s r =
     (r\<lparr>user := Some (ContextVar_get s)\<rparr>,
      Some (asctime r @ '' '' @ levelname r @ '' '' @ name r @ '' user='' @ ContextVar_get s
            @ '' '' @ message r))"
  by (simp add: Handler_handle_def run_filters_all format_module_line)

text \<open>
  Claim C4. Reading the actor is a total function of the state (there is no error result):
  it is the sentinel \<open>''-''\<close> in a fresh process and whenever the variable was never set;
  setting an absent identifier stores the sentinel; a record handled, while the actor was
  never set, by a handler carrying the module's formatter and filter is rendered with
  \<open>user=-\<close>.
\<close>

theorem default_actor:
  "ContextVar_get (fresh_process env wd) = ''-'' \<and>
   (current_user s = None \<longrightarrow> ContextVar_get s = ''-'') \<and>
   current_user (snd (set_log_user None s)) = Some ''-'' \<and>
   ContextVar_get (snd (set_log_user None s)) = ''-'' \<and>
   (current_user s = None \<and> hformatter h = Some get_formatter \<and> hfilters h = [UserContextFilter]
      \<longrightarrow> Handler_handle h s r =
            (r\<lparr>user := Some ''-''\<rparr>,
             Some (asctime r @ '' '' @ levelname r @ '' '' @ name r @ '' user=-'' @ '' ''
                   @ message r)))"
proof -
  have a: "ContextVar_get (fresh_process env wd) = ''-''"
    by (simp add: ContextVar_get_def fresh_process_def)
  have b: "current_user s = None \<longrightarrow> ContextVar_get s = ''-''"
    by (simp add: ContextVar_get_def)
  have c: "current_user (snd (set_log_user None s)) = Some ''-''"
    by (simp add: set_log_user_def ContextVar_set_def or_else_def)
  then have d: "ContextVar_get (snd (set_log_user None s)) = ''-''"
    by (simp add: ContextVar_get_def)
  have e: "current_user s = None \<and> hformatter h = Some get_formatter \<and> hfilters h = [UserContextFilter]
      \<longrightarrow> Handler_handle h s r =
            (r\<lparr>user := Some ''-''\<rparr>,
             Some (asctime r @ '' '' @ levelname r @ '' '' @ name r @ '' user=-'' @ '' ''
                   @ message r))"
    using b by (simp add: handle_module_sink)
  from a b c d e show ?thesis by blast
qed

theorem default_actor_witness:
  "current_user (fresh_process Map.empty ''/srv/pd'') = None \<and>
   ContextVar_get (fresh_process Map.empty ''/srv/pd'') = ''-'' \<and>
   hformatter (module_sink StreamHandler INFO) = Some get_formatter \<and>
   hfilters (module_sink StreamHandler INFO) = [UserContextFilter] \<and>
   Handler_handle (module_sink StreamHandler INFO) (fresh_process Map.empty ''/srv/pd'')
       \<lparr>name = ''billing'', levelno = 20, levelname = ''INFO'', asctime = ''2024-05-01 10:00:00'',
        message = ''paid'', user = None\<rparr> =
     (\<lparr>name = ''billing'', levelno = 20, levelname = ''INFO'', asctime = ''2024-05-01 10:00:00'',
       message = ''paid'', user = Some ''-''\<rparr>,
      Some ''2024-05-01 10:00:00 INFO billing user=- paid'')"
  using default_actor [of Map.empty "''/srv/pd''" "fresh_process Map.empty ''/srv/pd''"
      "module_sink StreamHandler INFO"
      "\<lparr>name = ''billing'', levelno = 20, levelname = ''INFO'', asctime = ''2024-05-01 10:00:00'',
        message = ''paid'', user = None\<rparr>"]
  by (simp add: module_sink_def)

section \<open>Root initialization\<close>

lemma get_log_dir_eq:
  "get_log_dir s =
     (if mkdir_ok s (path_str (log_dir_of s))
      then Inr (log_dir_of s, s\<lparr>dirs := insert (path_str (log_dir_of s)) (dirs s)\<rparr>)
      else Inl OSError)"
  by (simp add: get_log_dir_def log_dir_of_def Let_def)

lemma get_log_level_frame [simp]:
  "get_log_level (s\<lparr>dirs := d\<rparr>) = get_log_level s"
  by (simp add: get_log_level_def getenv_def)

lemma logger_updated:
  "(l :: logger)\<lparr>level := a, handlers := b\<rparr> = \<lparr>level = a, handlers = b\<rparr>"
  by (cases l) simp

lemma checkLevel_IntV [simp]: "checkLevel (IntV n) = Inr n"
  by (simp add: checkLevel_def)

lemma setup_logging_configured:
  "handlers (root s) \<noteq> [] \<Longrightarrow>
   setup_logging s =
     (if mkdir_ok s (path_str (log_dir_of s))
      then Inr (s\<lparr>dirs := insert (path_str (log_dir_of s)) (dirs s)\<rparr>)
      else Inl OSError)"
  by (simp add: setup_logging_def get_log_dir_eq deref_def Let_def)

lemma setup_logging_fresh:
  assumes "handlers (root s) = []"
  shows "setup_logging s =
     (if \<not> mkdir_ok s (path_str (log_dir_of s)) then Inl OSError
      else case checkLevel (get_log_level s) of
             Inl e \<Rightarrow> Inl e
           | Inr lv \<Rightarrow>
               if \<not> open_ok s (log_file_of s ''app.log'') then Inl OSError
               else if \<not> open_ok s (log_file_of s ''error.log'') then Inl OSError
               else Inr (s\<lparr>dirs := insert (path_str (log_dir_of s)) (dirs s),
                           files := insert (log_file_of s ''error.log'')
                                      (insert (log_file_of s ''app.log'') (files s)),
                           root := \<lparr>level = lv,
                                    handlers = [module_sink StreamHandler lv,
                                                module_sink (rotating (log_file_of s ''app.log'')) lv,
                                                module_sink (rotating (log_file_of s ''error.log'')) ERROR]\<rparr>\<rparr>))"
proof (cases "checkLevel (get_log_level s)")
  case (Inl e)
  with assms show ?thesis
    by (simp add: setup_logging_def get_log_dir_eq deref_def Let_def Logger_setLevel_def)
next
  case (Inr lv)
  with assms show ?thesis
    by (simp add: setup_logging_def get_log_dir_eq deref_def Let_def Logger_setLevel_def
        new_StreamHandler_def new_RotatingFileHandler_def assign_def
        Handler_setLevel_def setFormatter_def addFilter_def module_sink_def
        addHandler_def log_file_of_def rotating_def logger_updated)
qed

lemma setup_logging_fresh_Inr:
  assumes "handlers (root s) = []" and "setup_logging s = Inr s1"
  shows "\<exists>lv. checkLevel (get_log_level s) = Inr lv \<and>
          mkdir_ok s (path_str (log_dir_of s)) \<and>
          s1 = s\<lparr>dirs := insert (path_str (log_dir_of s)) (dirs s),
                 files := insert (log_file_of s ''error.log'')
                            (insert (log_file_of s ''app.log'') (files s)),
                 root := \<lparr>level = lv,
                          handlers = [module_sink StreamHandler lv,
                                      module_sink (rotating (log_file_of s ''app.log'')) lv,
                                      module_sink (rotating (log_file_of s ''error.log'')) ERROR]\<rparr>\<rparr>"
proof (cases "checkLevel (get_log_level s)")
  case (Inl e)
  with assms show ?thesis
    by (simp add: setup_logging_fresh split: if_splits)
next
  case (Inr lv)
  with assms show ?thesis
    by (simp add: setup_logging_fresh split: if_splits)
qed

lemma setup_logging_again:
  assumes "handlers (root s) = []" and "setup_logging s = Inr s1"
  shows "setup_logging s1 = Inr s1"
proof -
  from setup_logging_fresh_Inr [OF assms] obtain lv where
    m: "mkdir_ok s (path_str (log_dir_of s))" and
    s1: "s1 = s\<lparr>dirs := insert (path_str (log_dir_of s)) (dirs s),
                 files := insert (log_file_of s ''error.log'')
                            (insert (log_file_of s ''app.log'') (files s)),
                 root := \<lparr>level = lv,
                          handlers = [module_sink StreamHandler lv,
                                      module_sink (rotating (log_file_of s ''app.log'')) lv,
                                      module_sink (rotating (log_file_of s ''error.log'')) ERROR]\<rparr>\<rparr>"
    by blast
  have d: "log_dir_of s1 = log_dir_of s"
    by (simp add: s1 log_dir_of_def getenv_def)
  have "handlers (root s1) \<noteq> []"
    by (simp add: s1)
  then have "setup_logging s1 =
     (if mkdir_ok s1 (path_str (log_dir_of s1))
      then Inr (s1\<lparr>dirs := insert (path_str (log_dir_of s1)) (dirs s1)\<rparr>)
      else Inl OSError)"
    by (rule setup_logging_configured)
  also have "\<dots> = Inr (s1\<lparr>dirs := insert (path_str (log_dir_of s)) (dirs s1)\<rparr>)"
    using m by (simp add: d) (simp add: s1)
  also have "s1\<lparr>dirs := insert (path_str (log_dir_of s)) (dirs s1)\<rparr> = s1"
    by (simp add: s1)
  finally show ?thesis .
qed

lemma setup_logging_times_fixed:
  "setup_logging s1 = Inr s1 \<Longrightarrow> setup_logging_times n s1 = Inr s1"
  by (induction n) simp_all

text \<open>
  Claim C2. Started on a root logger without handlers, any number \<open>n \<ge> 1\<close> of calls of
  \<open>setup_logging\<close>, the first of which returns, returns the state of the first call, whose
  root logger has exactly three handlers: the console handler, the rotating file
  \<^verbatim>\<open>app.log\<close> and the rotating file \<^verbatim>\<open>error.log\<close>. On a root logger that has a handler
  already, a call that returns leaves the root logger and every named logger as they were
  (nothing is attached again); all it does is ensure that the log directory exists.
\<close>

theorem setup_logging_idempotent:
  "(handlers (root s) = [] \<and> setup_logging s = Inr s1 \<and> 0 < n \<longrightarrow>
      setup_logging_times n s = Inr s1 \<and>
      length (handlers (root s1)) = 3 \<and>
      (\<exists>lv. handlers (root s1) =
               [module_sink StreamHandler lv,
                module_sink (rotating (log_file_of s ''app.log'')) lv,
                module_sink (rotating (log_file_of s ''error.log'')) ERROR])) \<and>
   (handlers (root s) \<noteq> [] \<and> setup_logging s = Inr s2 \<longrightarrow>
      s2 = s\<lparr>dirs := insert (path_str (log_dir_of s)) (dirs s)\<rparr> \<and>
      root s2 = root s \<and> loggerDict s2 = loggerDict s)"
proof (intro conjI impI)
  assume a: "handlers (root s) = [] \<and> setup_logging s = Inr s1 \<and> 0 < n"
  then obtain m where n: "n = Suc m"
    by (cases n) auto
  from a have "setup_logging s1 = Inr s1"
    by (blast intro: setup_logging_again)
  then have "setup_logging_times m s1 = Inr s1"
    by (rule setup_logging_times_fixed)
  with a n show "setup_logging_times n s = Inr s1"
    by simp
  from a have "handlers (root s) = []" and "setup_logging s = Inr s1"
    by simp_all
  from setup_logging_fresh_Inr [OF this] obtain lv where
    "s1 = s\<lparr>dirs := insert (path_str (log_dir_of s)) (dirs s),
                 files := insert (log_file_of s ''error.log'')
                            (insert (log_file_of s ''app.log'') (files s)),
                 root := \<lparr>level = lv,
                          handlers = [module_sink StreamHandler lv,
                                      module_sink (rotating (log_file_of s ''app.log'')) lv,
                                      module_sink (rotating (log_file_of s ''error.log'')) ERROR]\<rparr>\<rparr>"
    by blast
  then have "handlers (root s1) =
               [module_sink StreamHandler lv,
                module_sink (rotating (log_file_of s ''app.log'')) lv,
                module_sink (rotating (log_file_of s ''error.log'')) ERROR]"
    by simp
  then have h: "\<exists>lv. handlers (root s1) =
               [module_sink StreamHandler lv,
                module_sink (rotating (log_file_of s ''app.log'')) lv,
                module_sink (rotating (log_file_of s ''error.log'')) ERROR]"
    by blast
  then show "length (handlers (root s1)) = 3"
    by auto
  from h show "\<exists>lv. handlers (root s1) =
               [module_sink StreamHandler lv,
                module_sink (rotating (log_file_of s ''app.log'')) lv,
                module_sink (rotating (log_file_of s ''error.log'')) ERROR]" .
next
  assume b: "handlers (root s) \<noteq> [] \<and> setup_logging s = Inr s2"
  then show s2: "s2 = s\<lparr>dirs := insert (path_str (log_dir_of s)) (dirs s)\<rparr>"
    by (auto simp: setup_logging_configured split: if_splits)
  show "root s2 = root s"
    by (simp add: s2)
  show "loggerDict s2 = loggerDict s"
    by (simp add: s2)
qed

lemma path_evals:
  "log_dir_of (fresh_process Map.empty wd) = \<lparr>proot = [], pparts = [''logs'']\<rparr>"
  by (simp add: log_dir_of_def getenv_def Path_def leading_slashes_def)

lemma file_evals:
  "log_file_of (fresh_process Map.empty ''/srv/pd'') ''app.log'' = ''/srv/pd/logs/app.log''"
  "log_file_of (fresh_process Map.empty ''/srv/pd'') ''error.log'' = ''/srv/pd/logs/error.log''"
  by (simp_all add: log_file_of_def path_evals truediv_def Path_def leading_slashes_def path_str_def
     abspath_def path_join_def normpath_def norm_step_def)

lemma level_default:
  "environ s ''LOG_LEVEL'' = None \<Longrightarrow> get_log_level s = IntV INFO"
  by (simp add: get_log_level_def getenv_def upper_def upper_char_def logging_getattr_def
      logging_attrs_def)

lemma setup_logging_boot:
  "setup_logging (fresh_process Map.empty ''/srv/pd'') = Inr booted"
  by (simp add: setup_logging_fresh file_evals path_evals level_default booted_def path_str_def)


theorem setup_logging_idempotent_witness:
  "handlers (root (fresh_process Map.empty ''/srv/pd'')) = [] \<and>
   setup_logging (fresh_process Map.empty ''/srv/pd'') = Inr booted \<and>
   setup_logging_times 2 (fresh_process Map.empty ''/srv/pd'') = Inr booted \<and>
   length (handlers (root booted)) = 3 \<and>
   handlers (root booted) \<noteq> [] \<and>
   setup_logging booted = Inr booted \<and>
   booted = booted\<lparr>dirs := insert (path_str (log_dir_of booted)) (dirs booted)\<rparr>"
proof -
  have f: "handlers (root (fresh_process Map.empty ''/srv/pd'')) = []"
    by simp
  have n: "handlers (root booted) \<noteq> []"
    by (simp add: booted_def)
  have b: "setup_logging booted = Inr booted"
    using f setup_logging_boot by (rule setup_logging_again)
  show ?thesis
    using f n b setup_logging_boot
      setup_logging_idempotent [of "fresh_process Map.empty ''/srv/pd''" booted 2 booted]
      setup_logging_idempotent [of booted booted 2 booted]
    by simp
qed

section \<open>Severity routing\<close>

lemma module_sink_fields [simp]:
  "target (module_sink d lv) = d"
  "hlevel (module_sink d lv) = lv"
  "hformatter (module_sink d lv) = Some get_formatter"
  "hfilters (module_sink d lv) = [UserContextFilter]"
  by (simp_all add: module_sink_def)

lemma callHandlers_module_sink:
  "callHandlers (module_sink d lv # hs) s r =
     (if lv \<le> levelno r
      then (d, asctime r @ '' '' @ levelname r @ '' '' @ name r @ '' user='' @ ContextVar_get s
               @ '' '' @ message r)
           # callHandlers hs s (r\<lparr>user := Some (ContextVar_get s)\<rparr>)
      else callHandlers hs s r)"
  by (simp add: admits_def handle_module_sink)

text \<open>
  Claim C6. After a root initialization that started without handlers, the root logger has
  the console, \<^verbatim>\<open>app.log\<close> and \<^verbatim>\<open>error.log\<close> handlers, and the \<^verbatim>\<open>error.log\<close> handler admits
  exactly the levels from ERROR up, whatever level the environment configures. With
  \<^verbatim>\<open>LOG_LEVEL\<close> unset (the default INFO), \<^verbatim>\<open>app.log\<close> admits WARNING and ERROR,
  \<^verbatim>\<open>error.log\<close> admits ERROR and not WARNING, and a record logged on the root logger is
  written to the console and \<^verbatim>\<open>app.log\<close> when its level is WARNING, and to all three when
  it is ERROR.
\<close>

theorem severity_routing:
  assumes "handlers (root s) = []" and "setup_logging s = Inr s1"
  shows "\<exists>c a e. handlers (root s1) = [c, a, e] \<and>
           target c = StreamHandler \<and>
           target a = rotating (log_file_of s ''app.log'') \<and>
           target e = rotating (log_file_of s ''error.log'') \<and>
           (\<forall>lvl. admits e lvl \<longleftrightarrow> ERROR \<le> lvl) \<and>
           (environ s ''LOG_LEVEL'' = None \<longrightarrow>
              level (root s1) = INFO \<and>
              admits a WARNING \<and> \<not> admits e WARNING \<and> admits a ERROR \<and> admits e ERROR \<and>
              (levelno r = WARNING \<longrightarrow> map fst (root_handle s1 r) = [target c, target a]) \<and>
              (levelno r = ERROR \<longrightarrow> map fst (root_handle s1 r) = [target c, target a, target e]))"
proof -
  from setup_logging_fresh_Inr [OF assms] obtain lv where
    lv: "checkLevel (get_log_level s) = Inr lv" and
    s1: "s1 = s\<lparr>dirs := insert (path_str (log_dir_of s)) (dirs s),
                 files := insert (log_file_of s ''error.log'')
                            (insert (log_file_of s ''app.log'') (files s)),
                 root := \<lparr>level = lv,
                          handlers = [module_sink StreamHandler lv,
                                      module_sink (rotating (log_file_of s ''app.log'')) lv,
                                      module_sink (rotating (log_file_of s ''error.log'')) ERROR]\<rparr>\<rparr>"
    by blast
  let ?c = "module_sink StreamHandler lv"
  let ?a = "module_sink (rotating (log_file_of s ''app.log'')) lv"
  let ?e = "module_sink (rotating (log_file_of s ''error.log'')) ERROR"
  have hs: "handlers (root s1) = [?c, ?a, ?e]"
    by (simp add: s1)
  have rl: "level (root s1) = lv"
    by (simp add: s1)
  have e: "\<forall>lvl. admits ?e lvl \<longleftrightarrow> ERROR \<le> lvl"
    by (simp add: admits_def)
  have d: "environ s ''LOG_LEVEL'' = None \<longrightarrow>
              level (root s1) = INFO \<and>
              admits ?a WARNING \<and> \<not> admits ?e WARNING \<and> admits ?a ERROR \<and> admits ?e ERROR \<and>
              (levelno r = WARNING \<longrightarrow> map fst (root_handle s1 r) = [target ?c, target ?a]) \<and>
              (levelno r = ERROR \<longrightarrow> map fst (root_handle s1 r) = [target ?c, target ?a, target ?e])"
  proof
    assume "environ s ''LOG_LEVEL'' = None"
    then have "get_log_level s = IntV INFO"
      by (rule level_default)
    with lv have i: "lv = INFO"
      by simp
    show "level (root s1) = INFO \<and>
              admits ?a WARNING \<and> \<not> admits ?e WARNING \<and> admits ?a ERROR \<and> admits ?e ERROR \<and>
              (levelno r = WARNING \<longrightarrow> map fst (root_handle s1 r) = [target ?c, target ?a]) \<and>
              (levelno r = ERROR \<longrightarrow> map fst (root_handle s1 r) = [target ?c, target ?a, target ?e])"
      by (simp add: i rl hs root_handle_def callHandlers_module_sink admits_def
          INFO_def WARNING_def ERROR_def del: callHandlers.simps(2))
  qed
  from hs e d show ?thesis
    by (intro exI [of _ ?c] exI [of _ ?a] exI [of _ ?e]) simp
qed


theorem severity_routing_witness:
  "handlers (root (fresh_process Map.empty ''/srv/pd'')) = [] \<and>
   setup_logging (fresh_process Map.empty ''/srv/pd'') = Inr booted \<and>
   environ (fresh_process Map.empty ''/srv/pd'') ''LOG_LEVEL'' = None \<and>
   levelno \<lparr>name = ''billing'', levelno = 30, levelname = ''WARNING'',
            asctime = ''2024-05-01 10:00:00'', message = ''late'', user = None\<rparr> = WARNING \<and>
   map fst (root_handle booted
      \<lparr>name = ''billing'', levelno = 30, levelname = ''WARNING'',
       asctime = ''2024-05-01 10:00:00'', message = ''late'', user = None\<rparr>) =
     [StreamHandler, rotating ''/srv/pd/logs/app.log'']"
proof -
  let ?r = "\<lparr>name = ''billing'', levelno = 30, levelname = ''WARNING'',
             asctime = ''2024-05-01 10:00:00'', message = ''late'', user = None\<rparr>"
  have f: "handlers (root (fresh_process Map.empty ''/srv/pd'')) = []"
    by simp
  have hs: "handlers (root booted) =
      [module_sink StreamHandler INFO, module_sink (rotating ''/srv/pd/logs/app.log'') INFO,
       module_sink (rotating ''/srv/pd/logs/error.log'') ERROR]"
    by (simp add: booted_def)
  have w: "levelno ?r = WARNING"
    by (simp add: WARNING_def)
  from severity_routing [OF f setup_logging_boot, of ?r]
  have "map fst (root_handle booted ?r) = [StreamHandler, rotating ''/srv/pd/logs/app.log'']"
    unfolding hs using w by auto
  with f w show ?thesis
    using setup_logging_boot by simp
qed

section \<open>The configured level\<close>

text \<open>
  Claim C7, as stated, fails: \<^verbatim>\<open>warn\<close> is none of the five names, in any case, and yet the
  level it configures is 30, not INFO.
\<close>

theorem fallback_counterexample:
  "upper ''warn'' \<notin> set [''DEBUG'', ''INFO'', ''WARNING'', ''ERROR'', ''CRITICAL''] \<and>
   get_log_level (fresh_process (map_of [(''LOG_LEVEL'', ''warn'')]) ''/srv/pd'') = IntV 30 \<and>
   IntV 30 \<noteq> IntV INFO"
  by (simp add: get_log_level_def getenv_def upper_def upper_char_def logging_getattr_def
      logging_attrs_def WARNING_def INFO_def)

lemma setup_logging_errors:
  assumes "checkLevel (get_log_level s) = Inr lv"
  shows "(\<forall>e. setup_logging s = Inl e \<longrightarrow> e = OSError) \<and>
         ((\<forall>p. mkdir_ok s p \<and> open_ok s p) \<longrightarrow> (\<exists>s'. setup_logging s = Inr s'))"
proof (cases "handlers (root s) = []")
  case True
  with assms show ?thesis
    by (simp add: setup_logging_fresh)
next
  case False
  then show ?thesis
    by (simp add: setup_logging_configured)
qed

text \<open>
  Claim C7, amended. The value of \<^verbatim>\<open>LOG_LEVEL\<close> is upper-cased by \<^verbatim>\<open>str.upper\<close> and looked
  up among the attributes of the \<^verbatim>\<open>logging\<close> module. For every value: if its upper-cased
  form is none of DEBUG, INFO, WARNING, WARN, ERROR, CRITICAL, FATAL, NOTSET, BASIC_FORMAT
  and _STYLES, the level read is INFO, initialization cannot fail because of the level (the
  only exception left is an OSError of the file system, and there is none when the file
  system allows everything), and an initialization that starts without handlers and returns
  has set the root logger, the console handler and the \<^verbatim>\<open>app.log\<close> handler to INFO. If the
  upper-cased form is a name of the library's level table, the aliases WARN and FATAL and
  the name NOTSET included, the same holds with the level of that name. The upper-cased
  form is the one the interpreter computes, also for values with non-ASCII characters.
\<close>

theorem level_fallback:
  assumes "environ s ''LOG_LEVEL'' = Some v"
  shows "(upper v \<notin> set [''DEBUG'', ''INFO'', ''WARNING'', ''WARN'', ''ERROR'', ''CRITICAL'',
                          ''FATAL'', ''NOTSET'', ''BASIC_FORMAT'', ''_STYLES''] \<longrightarrow>
            get_log_level s = IntV INFO \<and>
            (\<forall>e. setup_logging s = Inl e \<longrightarrow> e = OSError) \<and>
            ((\<forall>p. mkdir_ok s p \<and> open_ok s p) \<longrightarrow> (\<exists>s'. setup_logging s = Inr s')) \<and>
            (handlers (root s) = [] \<and> setup_logging s = Inr s1 \<longrightarrow>
               level (root s1) = INFO \<and>
               handlers (root s1) =
                 [module_sink StreamHandler INFO,
                  module_sink (rotating (log_file_of s ''app.log'')) INFO,
                  module_sink (rotating (log_file_of s ''error.log'')) ERROR])) \<and>
         (map_of nameToLevel (upper v) = Some n \<longrightarrow>
            get_log_level s = IntV n \<and>
            (\<forall>e. setup_logging s = Inl e \<longrightarrow> e = OSError) \<and>
            ((\<forall>p. mkdir_ok s p \<and> open_ok s p) \<longrightarrow> (\<exists>s'. setup_logging s = Inr s')) \<and>
            (handlers (root s) = [] \<and> setup_logging s = Inr s1 \<longrightarrow>
               level (root s1) = n \<and>
               handlers (root s1) =
                 [module_sink StreamHandler n,
                  module_sink (rotating (log_file_of s ''app.log'')) n,
                  module_sink (rotating (log_file_of s ''error.log'')) ERROR]))"
proof -
  have ok: "\<And>k. get_log_level s = IntV k \<Longrightarrow>
            get_log_level s = IntV k \<and>
            (\<forall>e. setup_logging s = Inl e \<longrightarrow> e = OSError) \<and>
            ((\<forall>p. mkdir_ok s p \<and> open_ok s p) \<longrightarrow> (\<exists>s'. setup_logging s = Inr s')) \<and>
            (handlers (root s) = [] \<and> setup_logging s = Inr s1 \<longrightarrow>
               level (root s1) = k \<and>
               handlers (root s1) =
                 [module_sink StreamHandler k,
                  module_sink (rotating (log_file_of s ''app.log'')) k,
                  module_sink (rotating (log_file_of s ''error.log'')) ERROR])"
  proof -
    fix k
    assume l: "get_log_level s = IntV k"
    then have c: "checkLevel (get_log_level s) = Inr k"
      by simp
    have applied: "handlers (root s) = [] \<and> setup_logging s = Inr s1 \<longrightarrow>
               level (root s1) = k \<and>
               handlers (root s1) =
                 [module_sink StreamHandler k,
                  module_sink (rotating (log_file_of s ''app.log'')) k,
                  module_sink (rotating (log_file_of s ''error.log'')) ERROR]"
    proof
      assume "handlers (root s) = [] \<and> setup_logging s = Inr s1"
      then have "handlers (root s) = []" and "setup_logging s = Inr s1"
        by simp_all
      from setup_logging_fresh_Inr [OF this] obtain lv where
        lv: "checkLevel (get_log_level s) = Inr lv" and
        s1: "s1 = s\<lparr>dirs := insert (path_str (log_dir_of s)) (dirs s),
                 files := insert (log_file_of s ''error.log'')
                            (insert (log_file_of s ''app.log'') (files s)),
                 root := \<lparr>level = lv,
                          handlers = [module_sink StreamHandler lv,
                                      module_sink (rotating (log_file_of s ''app.log'')) lv,
                                      module_sink (rotating (log_file_of s ''error.log'')) ERROR]\<rparr>\<rparr>"
        by blast
      from lv c have "lv = k"
        by simp
      then show "level (root s1) = k \<and>
               handlers (root s1) =
                 [module_sink StreamHandler k,
                  module_sink (rotating (log_file_of s ''app.log'')) k,
                  module_sink (rotating (log_file_of s ''error.log'')) ERROR]"
        by (simp add: s1)
    qed
    from setup_logging_errors [OF c] l applied
    show "get_log_level s = IntV k \<and>
            (\<forall>e. setup_logging s = Inl e \<longrightarrow> e = OSError) \<and>
            ((\<forall>p. mkdir_ok s p \<and> open_ok s p) \<longrightarrow> (\<exists>s'. setup_logging s = Inr s')) \<and>
            (handlers (root s) = [] \<and> setup_logging s = Inr s1 \<longrightarrow>
               level (root s1) = k \<and>
               handlers (root s1) =
                 [module_sink StreamHandler k,
                  module_sink (rotating (log_file_of s ''app.log'')) k,
                  module_sink (rotating (log_file_of s ''error.log'')) ERROR])"
      by blast
  qed
  have a: "upper v \<notin> set [''DEBUG'', ''INFO'', ''WARNING'', ''WARN'', ''ERROR'', ''CRITICAL'',
                          ''FATAL'', ''NOTSET'', ''BASIC_FORMAT'', ''_STYLES''] \<longrightarrow>
            get_log_level s = IntV INFO"
  proof
    assume "upper v \<notin> set [''DEBUG'', ''INFO'', ''WARNING'', ''WARN'', ''ERROR'', ''CRITICAL'',
                          ''FATAL'', ''NOTSET'', ''BASIC_FORMAT'', ''_STYLES'']"
    then have "map_of logging_attrs (upper v) = None"
      by (simp add: logging_attrs_def)
    with assms show "get_log_level s = IntV INFO"
      by (simp add: get_log_level_def getenv_def logging_getattr_def)
  qed
  have b: "map_of nameToLevel (upper v) = Some n \<longrightarrow> get_log_level s = IntV n"
  proof
    assume "map_of nameToLevel (upper v) = Some n"
    then have "map_of logging_attrs (upper v) = Some (IntV n)"
      by (auto simp: nameToLevel_def logging_attrs_def split: if_splits)
    with assms show "get_log_level s = IntV n"
      by (simp add: get_log_level_def getenv_def logging_getattr_def)
  qed
  from a b ok [of INFO] ok [of n] show ?thesis
    by blast
qed

theorem level_fallback_witness:
  "environ verbose_process ''LOG_LEVEL'' = Some ''verbose'' \<and>
   is_ascii ''verbose'' \<and>
   upper ''verbose'' \<notin> set [''DEBUG'', ''INFO'', ''WARNING'', ''WARN'', ''ERROR'', ''CRITICAL'',
                          ''FATAL'', ''NOTSET'', ''BASIC_FORMAT'', ''_STYLES''] \<and>
   get_log_level verbose_process = IntV INFO \<and>
   (\<forall>p. mkdir_ok verbose_process p \<and> open_ok verbose_process p) \<and>
   handlers (root verbose_process) = [] \<and>
   setup_logging verbose_process = Inr (projr (setup_logging verbose_process)) \<and>
   level (root (projr (setup_logging verbose_process))) = INFO \<and>
   map hlevel (handlers (root (projr (setup_logging verbose_process)))) = [INFO, INFO, ERROR] \<and>
   environ (fresh_process (map_of [(''LOG_LEVEL'', ''Fatal'')]) ''/srv/pd'') ''LOG_LEVEL''
     = Some ''Fatal'' \<and>
   map_of nameToLevel (upper ''Fatal'') = Some 50 \<and>
   get_log_level (fresh_process (map_of [(''LOG_LEVEL'', ''Fatal'')]) ''/srv/pd'') = IntV 50"
proof -
  let ?t = "projr (setup_logging verbose_process)"
  have e1: "environ verbose_process ''LOG_LEVEL'' = Some ''verbose''"
    by (simp add: verbose_process_def)
  have as: "is_ascii ''verbose''"
    by simp
  have u1: "upper ''verbose'' \<notin> set [''DEBUG'', ''INFO'', ''WARNING'', ''WARN'', ''ERROR'',
      ''CRITICAL'', ''FATAL'', ''NOTSET'', ''BASIC_FORMAT'', ''_STYLES'']"
    by (simp add: upper_def upper_char_def)
  have io: "\<forall>p. mkdir_ok verbose_process p \<and> open_ok verbose_process p"
    by (simp add: verbose_process_def)
  have h: "handlers (root verbose_process) = []"
    by (simp add: verbose_process_def)
  from level_fallback [OF e1, of ?t 0] u1 io
  have l: "get_log_level verbose_process = IntV INFO"
    and ex: "\<exists>s'. setup_logging verbose_process = Inr s'"
    by blast+
  from ex have r: "setup_logging verbose_process = Inr ?t"
    by auto
  from level_fallback [OF e1, of ?t 0] u1 h r
  have ap: "level (root ?t) = INFO \<and>
      handlers (root ?t) =
        [module_sink StreamHandler INFO,
         module_sink (rotating (log_file_of verbose_process ''app.log'')) INFO,
         module_sink (rotating (log_file_of verbose_process ''error.log'')) ERROR]"
    by blast
  then have lv: "level (root ?t) = INFO"
    and hl: "map hlevel (handlers (root ?t)) = [INFO, INFO, ERROR]"
    by simp_all
  have e2: "environ (fresh_process (map_of [(''LOG_LEVEL'', ''Fatal'')]) ''/srv/pd'') ''LOG_LEVEL''
      = Some ''Fatal''"
    by simp
  have u2: "map_of nameToLevel (upper ''Fatal'') = Some 50"
    by (simp add: upper_def upper_char_def nameToLevel_def CRITICAL_def)
  from level_fallback [OF e2, of ?t 50] u2
  have l2: "get_log_level (fresh_process (map_of [(''LOG_LEVEL'', ''Fatal'')]) ''/srv/pd'') = IntV 50"
    by blast
  from e1 as u1 l io h r lv hl e2 u2 l2 show ?thesis
    by blast
qed

section \<open>Enrichment\<close>

text \<open>
  Claim C8. For every record and every state, the filter returns true and its only effect
  on the record is \<open>user := the actor read in that state\<close>; so do the filters of any handler
  carrying it. The state is the one at emission: a handler attached by \<open>setup_logging\<close>
  renders, after a later \<open>set_log_user u\<close>, the actor \<open>u\<close> (the sentinel when absent),
  although the handler was built before.
\<close>

theorem enrich_at_emission:
  "snd (UserContextFilter_filter s r) = True \<and>
   fst (UserContextFilter_filter s r) = r\<lparr>user := Some (ContextVar_get s)\<rparr> \<and>
   (UserContextFilter \<in> set (hfilters h) \<longrightarrow>
      run_filters (hfilters h) s r = (r\<lparr>user := Some (ContextVar_get s)\<rparr>, True)) \<and>
   (handlers (root s0) = [] \<and> setup_logging s0 = Inr s1 \<and> set_log_user u s1 = (t, s2) \<and>
    h \<in> set (handlers (root s2)) \<longrightarrow>
      Handler_handle h s2 r =
        (r\<lparr>user := Some (or_else u ''-'')\<rparr>,
         Some (asctime r @ '' '' @ levelname r @ '' '' @ name r @ '' user='' @ or_else u ''-''
               @ '' '' @ message r)))"
proof -
  have a: "snd (UserContextFilter_filter s r) = True"
    by (simp add: UserContextFilter_filter_def)
  have b: "fst (UserContextFilter_filter s r) = r\<lparr>user := Some (ContextVar_get s)\<rparr>"
    by (simp add: UserContextFilter_filter_def)
  have c: "UserContextFilter \<in> set (hfilters h) \<longrightarrow>
      run_filters (hfilters h) s r = (r\<lparr>user := Some (ContextVar_get s)\<rparr>, True)"
    by (auto simp: run_filters_all)
  have d: "handlers (root s0) = [] \<and> setup_logging s0 = Inr s1 \<and> set_log_user u s1 = (t, s2) \<and>
    h \<in> set (handlers (root s2)) \<longrightarrow>
      Handler_handle h s2 r =
        (r\<lparr>user := Some (or_else u ''-'')\<rparr>,
         Some (asctime r @ '' '' @ levelname r @ '' '' @ name r @ '' user='' @ or_else u ''-''
               @ '' '' @ message r))"
  proof
    assume h: "handlers (root s0) = [] \<and> setup_logging s0 = Inr s1 \<and>
      set_log_user u s1 = (t, s2) \<and> h \<in> set (handlers (root s2))"
    then have "handlers (root s0) = []" and "setup_logging s0 = Inr s1"
      by simp_all
    from setup_logging_fresh_Inr [OF this] obtain lv where
      hs: "handlers (root s1) =
             [module_sink StreamHandler lv,
              module_sink (rotating (log_file_of s0 ''app.log'')) lv,
              module_sink (rotating (log_file_of s0 ''error.log'')) ERROR]"
      by auto
    from h have s2: "s2 = s1\<lparr>current_user := Some (or_else u ''-''),
          tokens := tokens s1 @ [\<lparr>old_value = current_user s1, used = False\<rparr>]\<rparr>"
      by (auto simp: set_log_user_def ContextVar_set_def)
    then have g: "ContextVar_get s2 = or_else u ''-''"
      by (simp add: ContextVar_get_def)
    from h hs s2 have "hformatter h = Some get_formatter \<and> hfilters h = [UserContextFilter]"
      by auto
    then show "Handler_handle h s2 r =
        (r\<lparr>user := Some (or_else u ''-'')\<rparr>,
         Some (asctime r @ '' '' @ levelname r @ '' '' @ name r @ '' user='' @ or_else u ''-''
               @ '' '' @ message r))"
      by (simp add: handle_module_sink g)
  qed
  from a b c d show ?thesis by blast
qed

theorem enrich_at_emission_witness:
  "UserContextFilter \<in> set (hfilters (module_sink StreamHandler INFO)) \<and>
   handlers (root (fresh_process Map.empty ''/srv/pd'')) = [] \<and>
   setup_logging (fresh_process Map.empty ''/srv/pd'') = Inr booted \<and>
   set_log_user (Some ''alice'') booted =
     (0, booted\<lparr>current_user := Some ''alice'', tokens := [\<lparr>old_value = None, used = False\<rparr>]\<rparr>) \<and>
   module_sink (rotating ''/srv/pd/logs/app.log'') INFO \<in>
     set (handlers (root (booted\<lparr>current_user := Some ''alice'',
                                tokens := [\<lparr>old_value = None, used = False\<rparr>]\<rparr>))) \<and>
   Handler_handle (module_sink (rotating ''/srv/pd/logs/app.log'') INFO)
       (booted\<lparr>current_user := Some ''alice'', tokens := [\<lparr>old_value = None, used = False\<rparr>]\<rparr>)
       \<lparr>name = ''billing'', levelno = 20, levelname = ''INFO'', asctime = ''2024-05-01 10:00:00'',
        message = ''paid'', user = None\<rparr> =
     (\<lparr>name = ''billing'', levelno = 20, levelname = ''INFO'', asctime = ''2024-05-01 10:00:00'',
       message = ''paid'', user = Some ''alice''\<rparr>,
      Some ''2024-05-01 10:00:00 INFO billing user=alice paid'')"
proof -
  let ?s2 = "booted\<lparr>current_user := Some ''alice'', tokens := [\<lparr>old_value = None, used = False\<rparr>]\<rparr>"
  let ?h = "module_sink (rotating ''/srv/pd/logs/app.log'') INFO"
  let ?r = "\<lparr>name = ''billing'', levelno = 20, levelname = ''INFO'',
             asctime = ''2024-05-01 10:00:00'', message = ''paid'', user = None\<rparr>"
  have f: "handlers (root (fresh_process Map.empty ''/srv/pd'')) = []"
    by simp
  have st: "set_log_user (Some ''alice'') booted = (0, ?s2)"
    by (simp add: set_log_user_def ContextVar_set_def or_else_def booted_def)
  have hin: "?h \<in> set (handlers (root ?s2))"
    by (simp add: booted_def)
  have o: "or_else (Some ''alice'') ''-'' = ''alice''"
    by (simp add: or_else_def)
  have m: "UserContextFilter \<in> set (hfilters (module_sink StreamHandler INFO))"
    by simp
  from enrich_at_emission [of ?s2 ?r ?h "fresh_process Map.empty ''/srv/pd''" booted
      "Some ''alice''" 0 ?s2] f setup_logging_boot st hin
  have "Handler_handle ?h ?s2 ?r =
     (?r\<lparr>user := Some ''alice''\<rparr>, Some (asctime ?r @ '' '' @ levelname ?r @ '' '' @ name ?r
         @ '' user='' @ ''alice'' @ '' '' @ message ?r))"
    unfolding o by blast
  then have "Handler_handle ?h ?s2 ?r =
     (\<lparr>name = ''billing'', levelno = 20, levelname = ''INFO'', asctime = ''2024-05-01 10:00:00'',
       message = ''paid'', user = Some ''alice''\<rparr>,
      Some ''2024-05-01 10:00:00 INFO billing user=alice paid'')"
    by simp
  with m f st hin setup_logging_boot show ?thesis
    by blast
qed

section \<open>Component sinks: configuration\<close>

lemma deref_frame [simp]:
  "deref (s\<lparr>dirs := d\<rparr>) lg = deref s lg"
  "deref (s\<lparr>files := f\<rparr>) lg = deref s lg"
  by (simp_all add: deref_def split: logger_ref.splits)

lemma deref_addHandler:
  "deref (addHandler lg h s) lg = (deref s lg)\<lparr>handlers := handlers (deref s lg) @ [h]\<rparr>"
  by (cases lg) (simp_all add: addHandler_def assign_def deref_def)

lemma ensure_module_handler_eq:
  "ensure_module_handler lg nm s =
     (if \<not> mkdir_ok s (path_str (log_dir_of s)) then Inl OSError
      else if handler_attached (handlers (deref s lg))
                (path_str (module_log_path (log_dir_of s) nm))
        then Inr (s\<lparr>dirs := insert (path_str (log_dir_of s)) (dirs s)\<rparr>)
      else if \<not> open_ok s (log_file_of s (safe_name nm @ ''.log'')) then Inl OSError
      else case checkLevel (get_log_level s) of
             Inl e \<Rightarrow> Inl e
           | Inr lv \<Rightarrow>
               Inr (addHandler lg (module_sink (rotating (log_file_of s (safe_name nm @ ''.log''))) lv)
                      (s\<lparr>dirs := insert (path_str (log_dir_of s)) (dirs s),
                         files := insert (log_file_of s (safe_name nm @ ''.log'')) (files s)\<rparr>)))"
proof (cases "checkLevel (get_log_level s)")
  case (Inl e)
  then show ?thesis
    by (simp add: ensure_module_handler_def get_log_dir_eq Let_def new_RotatingFileHandler_def
        Handler_setLevel_def log_file_of_def module_log_path_def)
next
  case (Inr lv)
  then show ?thesis
    by (simp add: ensure_module_handler_def get_log_dir_eq Let_def new_RotatingFileHandler_def
        Handler_setLevel_def setFormatter_def addFilter_def module_sink_def rotating_def
        log_file_of_def module_log_path_def)
qed

lemma getLogger_ref:
  "fst (getLogger nm s) = (if nm = [] \<or> nm = ''root'' then RootLogger else NamedLogger nm)"
  by (simp add: getLogger_def)

lemma getLogger_frame:
  "deref (snd (getLogger nm s)) lg = deref s lg"
  "environ (snd (getLogger nm s)) = environ s"
  "cwd (snd (getLogger nm s)) = cwd s"
  "mkdir_ok (snd (getLogger nm s)) = mkdir_ok s"
  "open_ok (snd (getLogger nm s)) = open_ok s"
  "root (snd (getLogger nm s)) = root s"
  by (cases lg; simp add: getLogger_def deref_def split: option.splits)+


lemma config_frame:
  "environ s' = environ s \<Longrightarrow> get_log_level s' = get_log_level s"
  "environ s' = environ s \<Longrightarrow> log_dir_of s' = log_dir_of s"
  "environ s' = environ s \<Longrightarrow> cwd s' = cwd s \<Longrightarrow> log_file_of s' f = log_file_of s f"
  by (simp_all add: get_log_level_def log_dir_of_def log_file_of_def getenv_def)

lemma get_logger_eq:
  "get_logger nm s =
     bindE (ensure_module_handler (fst (getLogger (or_else nm ''app'') s)) (or_else nm ''app'')
              (snd (getLogger (or_else nm ''app'') s)))
       (\<lambda>s2. Inr (fst (getLogger (or_else nm ''app'') s), s2))"
  by (simp add: get_logger_def Let_def split: prod.splits)

text \<open>
  Claim C9, amended. Every call of \<open>get_logger\<close> reads the configuration from the
  environment of the state it is called in: when the call returns and had to attach a
  sink, that sink has the level and the file under the log directory that this
  environment gives; when a sink for that path string was found, the handlers are
  unchanged. These are the values of root initialization whenever environment and working
  directory are the same as then.
\<close>

theorem component_sink_config:
  assumes "get_logger nm s = Inr (lg, s')"
  shows "(handler_attached (handlers (deref s lg))
            (path_str (module_log_path (log_dir_of s) (or_else nm ''app''))) \<longrightarrow>
          handlers (deref s' lg) = handlers (deref s lg)) \<and>
         (\<not> handler_attached (handlers (deref s lg))
            (path_str (module_log_path (log_dir_of s) (or_else nm ''app''))) \<longrightarrow>
          (\<exists>lv. checkLevel (get_log_level s) = Inr lv \<and>
                handlers (deref s' lg) =
                  handlers (deref s lg) @
                  [module_sink (rotating (log_file_of s (safe_name (or_else nm ''app'') @ ''.log'')))
                     lv])) \<and>
         (environ s = environ s0 \<and> cwd s = cwd s0 \<longrightarrow>
            get_log_level s = get_log_level s0 \<and> log_dir_of s = log_dir_of s0 \<and>
            log_file_of s (safe_name (or_else nm ''app'') @ ''.log'') =
              log_file_of s0 (safe_name (or_else nm ''app'') @ ''.log''))"
proof -
  let ?n = "or_else nm ''app''"
  let ?g = "snd (getLogger ?n s)"
  let ?p = "path_str (module_log_path (log_dir_of s) ?n)"
  let ?f = "log_file_of s (safe_name ?n @ ''.log'')"
  from assms have lg: "lg = fst (getLogger ?n s)"
    and e: "ensure_module_handler lg ?n ?g = Inr s'"
    by (auto simp: get_logger_eq bindE_eq_Inr)
  have env: "environ ?g = environ s" and wd: "cwd ?g = cwd s"
    by (rule getLogger_frame)+
  have d: "log_dir_of ?g = log_dir_of s"
    using env by (rule config_frame)
  have l: "get_log_level ?g = get_log_level s"
    using env by (rule config_frame)
  have f: "log_file_of ?g (safe_name ?n @ ''.log'') = ?f"
    using env wd by (rule config_frame)
  have dr: "deref ?g lg = deref s lg"
    by (rule getLogger_frame)
  have a: "handler_attached (handlers (deref s lg)) ?p \<longrightarrow>
          handlers (deref s' lg) = handlers (deref s lg)"
  proof
    assume "handler_attached (handlers (deref s lg)) ?p"
    with e have "s' = ?g\<lparr>dirs := insert (path_str (log_dir_of s)) (dirs ?g)\<rparr>"
      by (simp add: ensure_module_handler_eq d dr split: if_splits)
    then show "handlers (deref s' lg) = handlers (deref s lg)"
      by (simp add: dr)
  qed
  have b: "\<not> handler_attached (handlers (deref s lg)) ?p \<longrightarrow>
          (\<exists>lv. checkLevel (get_log_level s) = Inr lv \<and>
                handlers (deref s' lg) = handlers (deref s lg) @ [module_sink (rotating ?f) lv])"
  proof
    assume n: "\<not> handler_attached (handlers (deref s lg)) ?p"
    show "\<exists>lv. checkLevel (get_log_level s) = Inr lv \<and>
                handlers (deref s' lg) = handlers (deref s lg) @ [module_sink (rotating ?f) lv]"
    proof (cases "checkLevel (get_log_level s)")
      case (Inl x)
      with e n show ?thesis
        by (simp add: ensure_module_handler_eq d dr l f split: if_splits)
    next
      case (Inr lv)
      with e n have "s' = addHandler lg (module_sink (rotating ?f) lv)
                      (?g\<lparr>dirs := insert (path_str (log_dir_of s)) (dirs ?g),
                         files := insert ?f (files ?g)\<rparr>)"
        by (simp add: ensure_module_handler_eq d dr l f split: if_splits)
      then have "handlers (deref s' lg) = handlers (deref s lg) @ [module_sink (rotating ?f) lv]"
        by (simp add: deref_addHandler dr)
      with Inr show ?thesis
        by simp
    qed
  qed
  have c: "environ s = environ s0 \<and> cwd s = cwd s0 \<longrightarrow>
            get_log_level s = get_log_level s0 \<and> log_dir_of s = log_dir_of s0 \<and>
            log_file_of s (safe_name ?n @ ''.log'') = log_file_of s0 (safe_name ?n @ ''.log'')"
    by (simp add: get_log_level_def log_dir_of_def log_file_of_def getenv_def)
  from a b c show ?thesis
    by blast
qed

section \<open>Component sinks: repeated requests\<close>

lemma or_else_evals [simp]:
  "or_else None d = d"
  "or_else (Some []) d = d"
  "or_else (Some (c # cs)) d = c # cs"
  by (simp_all add: or_else_def)

lemma safe_name_billing: "safe_name ''billing'' = ''billing''"
  by (simp add: safe_name_def replace_def)

lemma default_dir_evals:
  assumes "environ s ''LOG_DIR'' = None" and "cwd s = ''/srv/pd''"
  shows "path_str (log_dir_of s) = ''logs''"
    and "path_str (module_log_path (log_dir_of s) ''billing'') = ''logs/billing.log''"
    and "log_file_of s ''billing.log'' = ''/srv/pd/logs/billing.log''"
  using assms
  by (simp_all add: log_dir_of_def getenv_def Path_def leading_slashes_def path_str_def
      module_log_path_def safe_name_billing truediv_def log_file_of_def abspath_def
      path_join_def normpath_def norm_step_def)

lemma handler_attached_iff: "handler_attached hs p \<longleftrightarrow> p \<in> set (file_sinks hs)"
proof (induction hs)
  case Nil
  show ?case by (simp add: file_sinks_def)
next
  case (Cons h hs)
  then show ?case
    by (cases "target h") (auto simp: file_sinks_def)
qed

lemma file_sinks_append: "file_sinks (hs @ hs') = file_sinks hs @ file_sinks hs'"
  by (simp add: file_sinks_def)

lemma file_sinks_module_sink: "file_sinks [module_sink (rotating f) lv] = [f]"
  by (simp add: file_sinks_def module_sink_def rotating_def)

lemma get_logger_billing_step:
  assumes env: "environ s ''LOG_DIR'' = None" "environ s ''LOG_LEVEL'' = None"
    and wd: "cwd s = ''/srv/pd''"
    and io: "mkdir_ok s = (\<lambda>p. True)" "open_ok s = (\<lambda>p. True)"
    and hs: "file_sinks (handlers (deref s (NamedLogger ''billing''))) =
               replicate k ''/srv/pd/logs/billing.log''"
  shows "\<exists>s'. get_logger (Some ''billing'') s = Inr (NamedLogger ''billing'', s') \<and>
           environ s' = environ s \<and> cwd s' = cwd s \<and> mkdir_ok s' = mkdir_ok s \<and>
           open_ok s' = open_ok s \<and>
           file_sinks (handlers (deref s' (NamedLogger ''billing''))) =
             replicate (Suc k) ''/srv/pd/logs/billing.log''"
proof -
  let ?lg = "NamedLogger ''billing''"
  let ?g = "snd (getLogger ''billing'' s)"
  have g: "environ ?g = environ s" "cwd ?g = cwd s" "mkdir_ok ?g = mkdir_ok s"
    "open_ok ?g = open_ok s" "deref ?g ?lg = deref s ?lg"
    by (rule getLogger_frame)+
  have ev: "path_str (log_dir_of ?g) = ''logs''"
    "path_str (module_log_path (log_dir_of ?g) ''billing'') = ''logs/billing.log''"
    "log_file_of ?g ''billing.log'' = ''/srv/pd/logs/billing.log''"
    using env wd g by (simp_all add: default_dir_evals)
  have lv: "get_log_level ?g = IntV INFO"
    using env g by (simp add: level_default)
  have na: "\<not> handler_attached (handlers (deref ?g ?lg)) ''logs/billing.log''"
    by (simp add: handler_attached_iff g hs)
  let ?s' = "addHandler ?lg (module_sink (rotating ''/srv/pd/logs/billing.log'') INFO)
               (?g\<lparr>dirs := insert ''logs'' (dirs ?g),
                   files := insert ''/srv/pd/logs/billing.log'' (files ?g)\<rparr>)"
  have e: "ensure_module_handler ?lg ''billing'' ?g = Inr ?s'"
    using na io g by (simp add: ensure_module_handler_eq ev lv safe_name_billing)
  have r: "fst (getLogger ''billing'' s) = ?lg"
    by (simp add: getLogger_def)
  have gl: "get_logger (Some ''billing'') s = Inr (?lg, ?s')"
    by (simp add: get_logger_eq r e)
  have fr: "environ ?s' = environ s \<and> cwd ?s' = cwd s \<and> mkdir_ok ?s' = mkdir_ok s \<and>
           open_ok ?s' = open_ok s"
    using g by (simp add: addHandler_def assign_def)
  have "file_sinks (handlers (deref ?s' ?lg)) = replicate (Suc k) ''/srv/pd/logs/billing.log''"
    by (simp add: deref_addHandler file_sinks_append file_sinks_module_sink g hs
        replicate_append_same)
  with gl fr show ?thesis
    by blast
qed

lemma get_logger_times_billing:
  assumes "environ s ''LOG_DIR'' = None" "environ s ''LOG_LEVEL'' = None"
    and "cwd s = ''/srv/pd''"
    and "mkdir_ok s = (\<lambda>p. True)" "open_ok s = (\<lambda>p. True)"
    and "file_sinks (handlers (deref s (NamedLogger ''billing''))) =
               replicate k ''/srv/pd/logs/billing.log''"
  shows "sinks_after (NamedLogger ''billing'') (get_logger_times n (Some ''billing'') s) =
           Inr (replicate (k + n) ''/srv/pd/logs/billing.log'')"
  using assms
proof (induction n arbitrary: s k)
  case 0
  then show ?case
    by (simp add: sinks_after_def)
next
  case (Suc n)
  from get_logger_billing_step [OF Suc.prems] obtain s' where
    gl: "get_logger (Some ''billing'') s = Inr (NamedLogger ''billing'', s')" and
    fr: "environ s' = environ s" "cwd s' = cwd s" "mkdir_ok s' = mkdir_ok s"
      "open_ok s' = open_ok s" and
    hs: "file_sinks (handlers (deref s' (NamedLogger ''billing''))) =
             replicate (Suc k) ''/srv/pd/logs/billing.log''"
    by blast
  have "sinks_after (NamedLogger ''billing'') (get_logger_times n (Some ''billing'') s') =
           Inr (replicate (Suc k + n) ''/srv/pd/logs/billing.log'')"
    using Suc.prems fr hs by (intro Suc.IH) simp_all
  with gl show ?case
    by simp
qed

text \<open>
  Claim C1, at the default configuration. \<^verbatim>\<open>LOG_DIR\<close> is unset, so the log directory is the
  relative \<^verbatim>\<open>logs\<close>; the process runs in \<^verbatim>\<open>/srv/pd\<close>. Five calls of
  \<open>get_logger (Some ''billing'')\<close> leave five rotating-file handlers on the logger, all
  writing to \<^verbatim>\<open>/srv/pd/logs/billing.log\<close>: each handler stores the absolute path, the loop
  compares it with the relative \<^verbatim>\<open>logs/billing.log\<close>, and never finds it.
\<close>

theorem relative_dir_duplicates:
  "sinks_after (NamedLogger ''billing'')
     (get_logger_times 5 (Some ''billing'') (fresh_process (map_of []) ''/srv/pd'')) =
   Inr [''/srv/pd/logs/billing.log'', ''/srv/pd/logs/billing.log'', ''/srv/pd/logs/billing.log'',
        ''/srv/pd/logs/billing.log'', ''/srv/pd/logs/billing.log'']"
proof -
  have "file_sinks (handlers (deref (fresh_process Map.empty ''/srv/pd'') (NamedLogger ''billing'')))
      = replicate 0 ''/srv/pd/logs/billing.log''"
    by (simp add: deref_def new_logger_def file_sinks_def)
  then have "sinks_after (NamedLogger ''billing'')
     (get_logger_times 5 (Some ''billing'') (fresh_process Map.empty ''/srv/pd'')) =
     Inr (replicate (0 + 5) ''/srv/pd/logs/billing.log'')"
    by (intro get_logger_times_billing) simp_all
  then show ?thesis
    by (simp add: eval_nat_numeral)
qed

lemma booted_fields [simp]:
  "environ booted = Map.empty" "cwd booted = ''/srv/pd''"
  "mkdir_ok booted = (\<lambda>p. True)" "open_ok booted = (\<lambda>p. True)"
  "loggerDict booted = Map.empty" "level (root booted) = INFO"
  by (simp_all add: booted_def)

text \<open>
  Claim C9, as stated, fails. Root initialization runs with an empty environment (level
  INFO, files under \<^verbatim>\<open>/srv/pd/logs\<close>); the environment then changes; the sink that
  \<open>get_logger\<close> creates afterwards has the level DEBUG and the file
  \<^verbatim>\<open>/tmp/other/billing.log\<close> of the new environment.
\<close>

theorem component_sink_counterexample:
  "setup_logging (fresh_process (map_of []) ''/srv/pd'') = Inr booted \<and>
   level (root booted) = INFO \<and>
   file_sinks (handlers (root booted)) = [''/srv/pd/logs/app.log'', ''/srv/pd/logs/error.log''] \<and>
   result_handlers
     (get_logger (Some ''billing'')
        (booted\<lparr>environ := map_of [(''LOG_LEVEL'', ''DEBUG''), (''LOG_DIR'', ''/tmp/other'')]\<rparr>)) =
     Inr [module_sink (rotating ''/tmp/other/billing.log'') DEBUG] \<and>
   DEBUG \<noteq> INFO"
proof -
  define s where
    "s = booted\<lparr>environ := map_of [(''LOG_LEVEL'', ''DEBUG''), (''LOG_DIR'', ''/tmp/other'')]\<rparr>"
  define g where "g = snd (getLogger ''billing'' s)"
  have s: "environ s ''LOG_DIR'' = Some ''/tmp/other''" "environ s ''LOG_LEVEL'' = Some ''DEBUG''"
    "cwd s = ''/srv/pd''" "mkdir_ok s = (\<lambda>p. True)" "open_ok s = (\<lambda>p. True)"
    "loggerDict s = Map.empty"
    by (simp_all add: s_def)
  have g: "environ g = environ s" "cwd g = cwd s" "mkdir_ok g = mkdir_ok s"
    "open_ok g = open_ok s" "deref g (NamedLogger ''billing'') = deref s (NamedLogger ''billing'')"
    unfolding g_def by (rule getLogger_frame)+
  have d: "log_dir_of g = \<lparr>proot = ''/'', pparts = [''tmp'', ''other'']\<rparr>"
    by (simp add: log_dir_of_def getenv_def g s Path_def leading_slashes_def)
  have pd: "path_str (log_dir_of g) = ''/tmp/other''"
    by (simp add: d path_str_def)
  have p: "path_str (module_log_path (log_dir_of g) ''billing'') = ''/tmp/other/billing.log''"
    by (simp add: d module_log_path_def safe_name_billing truediv_def Path_def leading_slashes_def
        path_str_def)
  have f: "log_file_of g ''billing.log'' = ''/tmp/other/billing.log''"
    using p by (simp add: log_file_of_def module_log_path_def safe_name_billing abspath_def
        normpath_def norm_step_def leading_slashes_def)
  have l: "get_log_level g = IntV DEBUG"
    by (simp add: get_log_level_def getenv_def g s upper_def upper_char_def logging_getattr_def
        logging_attrs_def)
  have h0: "handlers (deref s (NamedLogger ''billing'')) = []"
    by (simp add: deref_def new_logger_def s)
  then have h: "handlers (deref g (NamedLogger ''billing'')) = []"
    by (simp only: g)
  have e: "ensure_module_handler (NamedLogger ''billing'') ''billing'' g =
      Inr (addHandler (NamedLogger ''billing'') (module_sink (rotating ''/tmp/other/billing.log'') DEBUG)
            (g\<lparr>dirs := insert ''/tmp/other'' (dirs g),
                files := insert ''/tmp/other/billing.log'' (files g)\<rparr>))"
    by (simp add: ensure_module_handler_eq p f l h h0 g s safe_name_billing pd)
  have r: "fst (getLogger ''billing'' s) = NamedLogger ''billing''"
    by (simp add: getLogger_def)
  have "result_handlers (get_logger (Some ''billing'') s) =
     Inr [module_sink (rotating ''/tmp/other/billing.log'') DEBUG]"
    by (simp add: get_logger_eq r e [unfolded g_def] result_handlers_def deref_addHandler
        h [unfolded g_def])
  then have "result_handlers
     (get_logger (Some ''billing'')
        (booted\<lparr>environ := map_of [(''LOG_LEVEL'', ''DEBUG''), (''LOG_DIR'', ''/tmp/other'')]\<rparr>)) =
     Inr [module_sink (rotating ''/tmp/other/billing.log'') DEBUG]"
    by (simp only: s_def)
  moreover have "file_sinks (handlers (root booted)) =
      [''/srv/pd/logs/app.log'', ''/srv/pd/logs/error.log'']"
    by (simp add: booted_def file_sinks_def module_sink_def rotating_def)
  moreover have "DEBUG \<noteq> INFO"
    by (simp add: DEBUG_def INFO_def)
  moreover have "setup_logging (fresh_process (map_of []) ''/srv/pd'') = Inr booted"
    using setup_logging_boot by simp
  moreover have "level (root booted) = INFO"
    by simp
  ultimately show ?thesis
    by (simp only:) simp
qed

lemma get_logger_booted:
  "get_logger (Some ''billing'') booted = Inr (NamedLogger ''billing'', booted_billing)"
proof -
  let ?g = "snd (getLogger ''billing'' booted)"
  have g: "environ ?g = environ booted" "cwd ?g = cwd booted" "mkdir_ok ?g = mkdir_ok booted"
    "open_ok ?g = open_ok booted"
    "deref ?g (NamedLogger ''billing'') = deref booted (NamedLogger ''billing'')"
    by (rule getLogger_frame)+
  have ev: "path_str (log_dir_of ?g) = ''logs''"
    "path_str (module_log_path (log_dir_of ?g) ''billing'') = ''logs/billing.log''"
    "log_file_of ?g ''billing.log'' = ''/srv/pd/logs/billing.log''"
    using g by (simp_all add: default_dir_evals)
  have l: "get_log_level ?g = IntV INFO"
    using g by (simp add: level_default)
  have h: "handlers (deref ?g (NamedLogger ''billing'')) = []"
    by (simp only: g) (simp add: deref_def new_logger_def)
  have e: "ensure_module_handler (NamedLogger ''billing'') ''billing'' ?g = Inr booted_billing"
    by (simp add: ensure_module_handler_eq ev l h g safe_name_billing)
      (simp add: getLogger_def addHandler_def assign_def deref_def new_logger_def booted_billing_def
        booted_def logger_updated insert_commute)
  have r: "fst (getLogger ''billing'' booted) = NamedLogger ''billing''"
    by (simp add: getLogger_def)
  show ?thesis
    by (simp add: get_logger_eq r e)
qed

theorem component_sink_config_witness:
  "get_logger (Some ''billing'') booted = Inr (NamedLogger ''billing'', booted_billing) \<and>
   \<not> handler_attached (handlers (deref booted (NamedLogger ''billing''))) ''logs/billing.log'' \<and>
   checkLevel (get_log_level booted) = Inr INFO \<and>
   handlers (deref booted_billing (NamedLogger ''billing'')) =
     [module_sink (rotating ''/srv/pd/logs/billing.log'') INFO] \<and>
   environ booted = environ (fresh_process Map.empty ''/srv/pd'') \<and>
   cwd booted = cwd (fresh_process Map.empty ''/srv/pd'') \<and>
   get_log_level booted = get_log_level (fresh_process Map.empty ''/srv/pd'')"
proof -
  have na: "\<not> handler_attached (handlers (deref booted (NamedLogger ''billing'')))
      (path_str (module_log_path (log_dir_of booted) (or_else (Some ''billing'') ''app'')))"
    by (simp add: deref_def new_logger_def)
  have p: "path_str (module_log_path (log_dir_of booted) (or_else (Some ''billing'') ''app''))
      = ''logs/billing.log''"
    by (simp add: default_dir_evals)
  have e: "environ booted = environ (fresh_process Map.empty ''/srv/pd'')"
      "cwd booted = cwd (fresh_process Map.empty ''/srv/pd'')"
    by simp_all
  have l: "checkLevel (get_log_level booted) = Inr INFO"
    by (simp add: level_default)
  have h: "handlers (deref booted_billing (NamedLogger ''billing'')) =
     [module_sink (rotating ''/srv/pd/logs/billing.log'') INFO]"
    by (simp add: deref_def booted_billing_def)
  from component_sink_config [OF get_logger_booted, of "fresh_process Map.empty ''/srv/pd''"] na e
  have "get_log_level booted = get_log_level (fresh_process Map.empty ''/srv/pd'')"
    by blast
  with na p e l h get_logger_booted show ?thesis
    by simp
qed

section \<open>Name sanitization and the default name\<close>

lemma replace_single: "replace old [new] s = map (\<lambda>c. if c = old then new else c) s"
  by (induction s) (simp_all add: replace_def)

lemma safe_name_map:
  "safe_name nm =
     map (\<lambda>c. if c = CHR ''/'' \<or> c = CHR 0x5C \<or> c = CHR ''.'' then CHR ''_'' else c) nm"
  by (induction nm) (simp_all add: safe_name_def replace_single)

lemma split_without_sep: "sep \<notin> set s \<Longrightarrow> split sep s = [s]"
  by (induction s) auto

lemma Path_component:
  assumes "CHR ''/'' \<notin> set x" and "x \<noteq> []" and "x \<noteq> ''.''"
  shows "Path x = \<lparr>proot = [], pparts = [x]\<rparr>"
proof -
  from assms obtain c cs where x: "x = c # cs" and c: "c \<noteq> CHR ''/''"
    by (cases x) auto
  then have "leading_slashes x = 0"
    by (simp add: leading_slashes_def)
  with assms show ?thesis
    by (simp add: Path_def split_without_sep)
qed

lemma module_log_path_eq:
  "module_log_path d nm = d\<lparr>pparts := pparts d @ [safe_name nm @ ''.log'']\<rparr>"
proof -
  have "CHR ''/'' \<notin> set (safe_name nm @ ''.log'')"
    by (auto simp: safe_name_map)
  moreover have "safe_name nm @ ''.log'' \<noteq> []" and "safe_name nm @ ''.log'' \<noteq> ''.''"
    by (simp_all add: append_eq_Cons_conv)
  ultimately have "Path (safe_name nm @ ''.log'') = \<lparr>proot = [], pparts = [safe_name nm @ ''.log'']\<rparr>"
    by (rule Path_component)
  then show ?thesis
    by (simp add: module_log_path_def truediv_def)
qed

lemma join_last_nonempty: "w \<noteq> [] \<Longrightarrow> join sep (ws @ [w]) \<noteq> []"
  by (induction sep ws rule: join.induct) simp_all

lemma get_logger_first_request:
  assumes nm: "nm \<noteq> []" "nm \<noteq> ''root''"
    and new: "loggerDict s nm = None"
    and io: "mkdir_ok s (path_str (log_dir_of s))" "open_ok s (log_file_of s (safe_name nm @ ''.log''))"
    and lv: "checkLevel (get_log_level s) = Inr lv"
  shows "get_logger (Some nm) s =
     Inr (NamedLogger nm,
          s\<lparr>dirs := insert (path_str (log_dir_of s)) (dirs s),
            files := insert (log_file_of s (safe_name nm @ ''.log'')) (files s),
            loggerDict := (loggerDict s)(nm \<mapsto>
              \<lparr>level = NOTSET,
               handlers = [module_sink (rotating (log_file_of s (safe_name nm @ ''.log''))) lv]\<rparr>)\<rparr>)"
proof -
  let ?g = "s\<lparr>loggerDict := (loggerDict s)(nm \<mapsto> new_logger)\<rparr>"
  from nm new have gl: "getLogger nm s = (NamedLogger nm, ?g)"
    by (simp add: getLogger_def)
  have o: "or_else (Some nm) ''app'' = nm"
    using nm by (simp add: or_else_def)
  have cf: "log_dir_of ?g = log_dir_of s" "get_log_level ?g = get_log_level s"
    "log_file_of ?g (safe_name nm @ ''.log'') = log_file_of s (safe_name nm @ ''.log'')"
    by (simp_all add: log_dir_of_def get_log_level_def log_file_of_def getenv_def)
  have h: "handlers (deref ?g (NamedLogger nm)) = []"
    by (simp add: deref_def new_logger_def)
  have "ensure_module_handler (NamedLogger nm) nm ?g =
      Inr (addHandler (NamedLogger nm)
             (module_sink (rotating (log_file_of s (safe_name nm @ ''.log''))) lv)
             (?g\<lparr>dirs := insert (path_str (log_dir_of s)) (dirs ?g),
                 files := insert (log_file_of s (safe_name nm @ ''.log'')) (files ?g)\<rparr>))"
    using io lv by (simp add: ensure_module_handler_eq cf h)
  then show ?thesis
    by (simp add: get_logger_def o gl addHandler_def assign_def deref_def new_logger_def
        logger_updated)
qed

text \<open>
  Claim C5. \<open>safe_name\<close> maps \<^verbatim>\<open>/\<close>, \<^verbatim>\<open>\\<close> and \<^verbatim>\<open>.\<close> to \<^verbatim>\<open>_\<close> and keeps every other
  character; the file of a component is the log directory extended by the one component
  \<^verbatim>\<open><safe name>.log\<close>. For \<^verbatim>\<open>a/b.c\<close> this is \<^verbatim>\<open>a_b_c.log\<close>, and \<open>get_logger\<close> in a fresh
  process attaches a sink on \<^verbatim>\<open>/srv/pd/logs/a_b_c.log\<close>. As a function the transform is
  deterministic; it is not injective: \<^verbatim>\<open>a/b\<close> and \<^verbatim>\<open>a.b\<close> collide.
\<close>

theorem name_sanitization:
  "safe_name nm =
     map (\<lambda>c. if c = CHR ''/'' \<or> c = CHR 0x5C \<or> c = CHR ''.'' then CHR ''_'' else c) nm \<and>
   module_log_path d nm = d\<lparr>pparts := pparts d @ [safe_name nm @ ''.log'']\<rparr> \<and>
   path_str (module_log_path d nm) = proot d @ join ''/'' (pparts d @ [safe_name nm @ ''.log'']) \<and>
   safe_name ''a/b.c'' = ''a_b_c'' \<and>
   path_str (module_log_path (Path ''logs'') ''a/b.c'') = ''logs/a_b_c.log'' \<and>
   sinks_after (NamedLogger ''a/b.c'')
     (get_logger_times 1 (Some ''a/b.c'') (fresh_process Map.empty ''/srv/pd'')) =
     Inr [''/srv/pd/logs/a_b_c.log''] \<and>
   safe_name ''a/b'' = safe_name ''a.b'' \<and> ''a/b'' \<noteq> ''a.b'' \<and> \<not> inj safe_name"
proof -
  let ?f = "fresh_process Map.empty ''/srv/pd''"
  have a: "safe_name nm =
     map (\<lambda>c. if c = CHR ''/'' \<or> c = CHR 0x5C \<or> c = CHR ''.'' then CHR ''_'' else c) nm"
    by (rule safe_name_map)
  have b: "module_log_path d nm = d\<lparr>pparts := pparts d @ [safe_name nm @ ''.log'']\<rparr>"
    by (rule module_log_path_eq)
  have "join ''/'' (pparts d @ [safe_name nm @ ''.log'']) \<noteq> []"
    by (rule join_last_nonempty) simp
  then have c: "path_str (module_log_path d nm) =
      proot d @ join ''/'' (pparts d @ [safe_name nm @ ''.log''])"
    by (simp add: b path_str_def)
  have sn: "safe_name ''a/b.c'' = ''a_b_c''"
    by (simp add: safe_name_map)
  have e: "path_str (module_log_path (Path ''logs'') ''a/b.c'') = ''logs/a_b_c.log''"
    by (simp add: module_log_path_eq sn path_str_def Path_def leading_slashes_def)
  have lf: "log_file_of ?f (safe_name ''a/b.c'' @ ''.log'') = ''/srv/pd/logs/a_b_c.log''"
    by (simp add: sn log_file_of_def path_evals truediv_def Path_def leading_slashes_def
        path_str_def abspath_def path_join_def normpath_def norm_step_def)
  have "get_logger (Some ''a/b.c'') ?f =
     Inr (NamedLogger ''a/b.c'',
          ?f\<lparr>dirs := insert (path_str (log_dir_of ?f)) (dirs ?f),
            files := insert (log_file_of ?f (safe_name ''a/b.c'' @ ''.log'')) (files ?f),
            loggerDict := (loggerDict ?f)(''a/b.c'' \<mapsto>
              \<lparr>level = NOTSET,
               handlers = [module_sink (rotating (log_file_of ?f (safe_name ''a/b.c'' @ ''.log'')))
                             INFO]\<rparr>)\<rparr>)"
    by (rule get_logger_first_request) (simp_all add: level_default)
  then have f: "sinks_after (NamedLogger ''a/b.c'') (get_logger_times 1 (Some ''a/b.c'') ?f) =
     Inr [''/srv/pd/logs/a_b_c.log'']"
    by (simp add: lf sinks_after_def deref_def file_sinks_module_sink)
  have g: "safe_name ''a/b'' = safe_name ''a.b''"
    by (simp add: safe_name_map)
  have h: "''a/b'' \<noteq> ''a.b''"
    by simp
  from g h have i: "\<not> inj safe_name"
    by (auto simp: inj_def)
  from a b c sn e f g h i show ?thesis
    by blast
qed

lemma ensure_module_handler_others:
  assumes "ensure_module_handler (NamedLogger nm) x s = Inr s'"
  shows "root s' = root s \<and> (\<forall>n. n \<noteq> nm \<longrightarrow> loggerDict s' n = loggerDict s n)"
proof (cases "checkLevel (get_log_level s)")
  case (Inl e)
  with assms show ?thesis
    by (auto simp: ensure_module_handler_eq split: if_splits)
next
  case (Inr lv)
  with assms show ?thesis
    by (auto simp: ensure_module_handler_eq addHandler_def assign_def split: if_splits)
qed

text \<open>
  Claim C10. The empty string behaves as an absent argument: \<open>set_log_user (Some [])\<close>
  is \<open>set_log_user None\<close> and stores the sentinel; \<open>get_logger (Some [])\<close> is
  \<open>get_logger None\<close> and \<open>get_logger (Some ''app'')\<close>, returns the logger named \<^verbatim>\<open>app\<close>, and
  leaves the root logger (the library's logger for the empty name) and every logger of
  another name as they were.
\<close>

theorem empty_is_absent:
  "set_log_user (Some []) s = set_log_user None s \<and>
   current_user (snd (set_log_user (Some []) s)) = Some ''-'' \<and>
   ContextVar_get (snd (set_log_user (Some []) s)) = ''-'' \<and>
   get_logger (Some []) s = get_logger None s \<and>
   get_logger (Some []) s = get_logger (Some ''app'') s \<and>
   (get_logger (Some []) s = Inr (lg, s') \<longrightarrow>
      lg = NamedLogger ''app'' \<and> root s' = root s \<and>
      (\<forall>nm. nm \<noteq> ''app'' \<longrightarrow> loggerDict s' nm = loggerDict s nm))"
proof -
  have a: "set_log_user (Some []) s = set_log_user None s"
    by (simp add: set_log_user_def)
  have b: "current_user (snd (set_log_user (Some []) s)) = Some ''-''"
    by (simp add: set_log_user_def ContextVar_set_def)
  then have c: "ContextVar_get (snd (set_log_user (Some []) s)) = ''-''"
    by (simp add: ContextVar_get_def)
  have d: "get_logger (Some []) s = get_logger None s"
    by (simp add: get_logger_def)
  have e: "get_logger (Some []) s = get_logger (Some ''app'') s"
    by (simp add: get_logger_def)
  have f: "get_logger (Some []) s = Inr (lg, s') \<longrightarrow>
      lg = NamedLogger ''app'' \<and> root s' = root s \<and>
      (\<forall>nm. nm \<noteq> ''app'' \<longrightarrow> loggerDict s' nm = loggerDict s nm)"
  proof
    assume "get_logger (Some []) s = Inr (lg, s')"
    then have lg: "lg = NamedLogger ''app''"
      and en: "ensure_module_handler (NamedLogger ''app'') ''app'' (snd (getLogger ''app'' s)) = Inr s'"
      by (auto simp: get_logger_eq bindE_eq_Inr getLogger_ref)
    have "root (snd (getLogger ''app'' s)) = root s"
      by (rule getLogger_frame)
    moreover have "\<forall>nm. nm \<noteq> ''app'' \<longrightarrow> loggerDict (snd (getLogger ''app'' s)) nm = loggerDict s nm"
      by (simp add: getLogger_def split: option.splits)
    ultimately show "lg = NamedLogger ''app'' \<and> root s' = root s \<and>
      (\<forall>nm. nm \<noteq> ''app'' \<longrightarrow> loggerDict s' nm = loggerDict s nm)"
      using lg ensure_module_handler_others [OF en] by simp
  qed
  from a b c d e f show ?thesis
    by blast
qed

theorem empty_is_absent_witness:
  "get_logger (Some []) (fresh_process Map.empty ''/srv/pd'') =
     Inr (NamedLogger ''app'',
          (fresh_process Map.empty ''/srv/pd'')
            \<lparr>dirs := {''logs''}, files := {''/srv/pd/logs/app.log''},
             loggerDict := [''app'' \<mapsto>
               \<lparr>level = NOTSET,
                handlers = [module_sink (rotating ''/srv/pd/logs/app.log'') INFO]\<rparr>]\<rparr>) \<and>
   root ((fresh_process Map.empty ''/srv/pd'')
            \<lparr>dirs := {''logs''}, files := {''/srv/pd/logs/app.log''},
             loggerDict := [''app'' \<mapsto>
               \<lparr>level = NOTSET,
                handlers = [module_sink (rotating ''/srv/pd/logs/app.log'') INFO]\<rparr>]\<rparr>) =
     root (fresh_process Map.empty ''/srv/pd'') \<and>
   ContextVar_get (snd (set_log_user (Some []) (fresh_process Map.empty ''/srv/pd''))) = ''-''"
proof -
  let ?f = "fresh_process Map.empty ''/srv/pd''"
  let ?s' = "?f\<lparr>dirs := {''logs''}, files := {''/srv/pd/logs/app.log''},
             loggerDict := [''app'' \<mapsto>
               \<lparr>level = NOTSET,
                handlers = [module_sink (rotating ''/srv/pd/logs/app.log'') INFO]\<rparr>]\<rparr>"
  have sn: "safe_name ''app'' = ''app''"
    by (simp add: safe_name_map)
  have "get_logger (Some ''app'') ?f =
     Inr (NamedLogger ''app'',
          ?f\<lparr>dirs := insert (path_str (log_dir_of ?f)) (dirs ?f),
            files := insert (log_file_of ?f (safe_name ''app'' @ ''.log'')) (files ?f),
            loggerDict := (loggerDict ?f)(''app'' \<mapsto>
              \<lparr>level = NOTSET,
               handlers = [module_sink (rotating (log_file_of ?f (safe_name ''app'' @ ''.log'')))
                             INFO]\<rparr>)\<rparr>)"
    by (rule get_logger_first_request) (simp_all add: level_default)
  then have g: "get_logger (Some ''app'') ?f = Inr (NamedLogger ''app'', ?s')"
    by (simp add: sn file_evals path_evals path_str_def)
  from empty_is_absent [of ?f "NamedLogger ''app''" ?s']
  have eq: "get_logger (Some []) ?f = get_logger (Some ''app'') ?f"
    and cv: "ContextVar_get (snd (set_log_user (Some []) ?f)) = ''-''"
    and imp: "get_logger (Some []) ?f = Inr (NamedLogger ''app'', ?s') \<longrightarrow> root ?s' = root ?f"
    by blast+
  from eq g have g0: "get_logger (Some []) ?f = Inr (NamedLogger ''app'', ?s')"
    by (simp only:)
  with imp have "root ?s' = root ?f"
    by blast
  with g0 cv show ?thesis
    by (simp only:)
qed

section \<open>Repeated requests under an absolute log directory\<close>

text \<open>
  When the path string of the component file is already what \<^verbatim>\<open>os.path.abspath\<close> makes of
  it (an absolute, normalized \<^verbatim>\<open>LOG_DIR\<close>), the loop does find the sink of an earlier call:
  a second call changes nothing.
\<close>

lemma getLogger_present:
  "nm = [] \<or> nm = ''root'' \<or> loggerDict s nm \<noteq> None \<Longrightarrow>
   getLogger nm s = (if nm = [] \<or> nm = ''root'' then RootLogger else NamedLogger nm, s)"
  by (auto simp: getLogger_def)

lemma getLogger_makes_present:
  "nm = [] \<or> nm = ''root'' \<or> loggerDict (snd (getLogger nm s)) nm \<noteq> None"
  by (simp add: getLogger_def split: option.splits)

lemma addHandler_frame:
  "environ (addHandler lg h s) = environ s"
  "cwd (addHandler lg h s) = cwd s"
  "mkdir_ok (addHandler lg h s) = mkdir_ok s"
  "open_ok (addHandler lg h s) = open_ok s"
  "dirs (addHandler lg h s) = dirs s"
  "loggerDict s nm \<noteq> None \<Longrightarrow> loggerDict (addHandler lg h s) nm \<noteq> None"
  by (cases lg; simp add: addHandler_def assign_def)+

lemma get_logger_absolute_dir_idempotent:
  assumes fp: "log_file_of s (safe_name (or_else nm ''app'') @ ''.log'') =
               path_str (module_log_path (log_dir_of s) (or_else nm ''app''))"
    and gl: "get_logger nm s = Inr (lg, s1)"
  shows "get_logger nm s1 = Inr (lg, s1)"
proof -
  let ?n = "or_else nm ''app''"
  let ?g = "snd (getLogger ?n s)"
  let ?p = "path_str (module_log_path (log_dir_of s) ?n)"
  let ?D = "path_str (log_dir_of s)"
  from gl have lg: "lg = fst (getLogger ?n s)"
    and e: "ensure_module_handler lg ?n ?g = Inr s1"
    by (auto simp: get_logger_eq bindE_eq_Inr)
  have pr: "?n = [] \<or> ?n = ''root'' \<or> loggerDict ?g ?n \<noteq> None"
    by (rule getLogger_makes_present)
  have lg': "lg = (if ?n = [] \<or> ?n = ''root'' then RootLogger else NamedLogger ?n)"
    by (simp add: lg getLogger_ref)
  have env: "environ ?g = environ s" and wd: "cwd ?g = cwd s"
    by (rule getLogger_frame)+
  have cf: "log_dir_of ?g = log_dir_of s" "get_log_level ?g = get_log_level s"
    using env by (rule config_frame)+
  have "log_file_of ?g (safe_name ?n @ ''.log'') = log_file_of s (safe_name ?n @ ''.log'')"
    using env wd by (rule config_frame)
  then have cf3: "log_file_of ?g (safe_name ?n @ ''.log'') = ?p"
    by (simp only: fp)
  from e have mk: "mkdir_ok ?g ?D"
    by (auto simp: ensure_module_handler_eq cf split: if_splits)
  have "getLogger ?n s1 = (lg, s1) \<and> mkdir_ok s1 = mkdir_ok ?g \<and> log_dir_of s1 = log_dir_of s \<and>
        ?D \<in> dirs s1 \<and> handler_attached (handlers (deref s1 lg)) ?p"
  proof (cases "handler_attached (handlers (deref ?g lg)) ?p")
    case True
    with e mk have s1: "s1 = ?g\<lparr>dirs := insert ?D (dirs ?g)\<rparr>"
      by (simp add: ensure_module_handler_eq cf)
    have "?n = [] \<or> ?n = ''root'' \<or> loggerDict s1 ?n \<noteq> None"
      using pr by (simp add: s1)
    then have "getLogger ?n s1 = (lg, s1)"
      by (simp only: getLogger_present lg')
    moreover have "log_dir_of s1 = log_dir_of s"
      using cf(1) by (simp add: s1 log_dir_of_def getenv_def)
    ultimately show ?thesis
      using True by (simp add: s1)
  next
    case False
    let ?u = "?g\<lparr>dirs := insert ?D (dirs ?g), files := insert ?p (files ?g)\<rparr>"
    from False e mk obtain lv where
      s1: "s1 = addHandler lg (module_sink (rotating ?p) lv) ?u"
      by (cases "checkLevel (get_log_level s)")
        (auto simp: ensure_module_handler_eq cf cf3 split: if_splits)
    have at: "handler_attached (handlers (deref s1 lg)) ?p"
      by (simp add: s1 deref_addHandler handler_attached_iff file_sinks_append
          file_sinks_module_sink)
    have "?n = [] \<or> ?n = ''root'' \<or> loggerDict ?u ?n \<noteq> None"
      using pr by simp
    then have "?n = [] \<or> ?n = ''root'' \<or> loggerDict s1 ?n \<noteq> None"
      unfolding s1 using addHandler_frame(6) [of ?u ?n lg] by blast
    then have "getLogger ?n s1 = (lg, s1)"
      by (simp only: getLogger_present lg')
    moreover have "log_dir_of s1 = log_dir_of s"
      using cf(1) by (simp add: s1 log_dir_of_def getenv_def addHandler_frame)
    moreover have "mkdir_ok s1 = mkdir_ok ?g \<and> ?D \<in> dirs s1"
      by (simp add: s1 addHandler_frame)
    ultimately show ?thesis
      using at by simp
  qed
  then have g1: "getLogger ?n s1 = (lg, s1)" and m1: "mkdir_ok s1 ?D"
    and d1: "log_dir_of s1 = log_dir_of s" and in1: "?D \<in> dirs s1"
    and at: "handler_attached (handlers (deref s1 lg)) ?p"
    using mk by simp_all
  have "ensure_module_handler lg ?n s1 = Inr (s1\<lparr>dirs := insert ?D (dirs s1)\<rparr>)"
    using m1 at by (simp add: ensure_module_handler_eq d1)
  also have "s1\<lparr>dirs := insert ?D (dirs s1)\<rparr> = s1"
    using in1 by (simp add: insert_absorb)
  finally show ?thesis
    by (simp add: get_logger_def g1)
qed


end
